(* ===== verification/Prelude.thy ===== *)
theory Prelude
  imports Main "HOL-Library.Word" "HOL-Library.State_Monad" "HOL-Library.Monad_Syntax"
begin

text \<open>
  Shared vocabulary of the development: the machine integers of Go, the errors and
  outcomes of Go calls, the built-in operations on slices the sources use, the byte
  orders of \<^verbatim>\<open>encoding/binary\<close>, and the generic lemmas about them.

  Conventions.
  \<^item> A Go \<^verbatim>\<open>[]byte\<close> (and a Go string, which is a byte sequence) is a \<open>byte list\<close>. Where the
    source distinguishes \<open>nil\<close> from a slice, the model uses \<open>byte list option\<close> with
    \<open>None\<close> for \<open>nil\<close>. Capacity is the length unless a theory says otherwise.
  \<^item> A Go \<open>int\<close> that is a length or a position is a \<open>nat\<close>: it never exceeds the
    address space. Fixed-width integers are words.
  \<^item> A pair \<open>(T, error)\<close> is \<open>go_error + T\<close>; an operation that can also panic or run
    forever has type \<open>T outcome\<close>.
\<close>

unbundle bit_operations_syntax

section \<open>Machine integers\<close>

type_synonym byte = "8 word"
type_synonym u16 = "16 word"
type_synonym u32 = "32 word"
type_synonym u64 = "64 word"

text \<open>A \<open>net.IP\<close>: \<open>None\<close> is the nil slice.\<close>

type_synonym net_IP = "byte list option"

lemma unat_byte_less: "unat (b :: byte) < 256"
  by (rule order.strict_trans2 [OF unsigned_less]) simp

lemma unat_u16_less: "unat (w :: u16) < 65536"
  by (rule order.strict_trans2 [OF unsigned_less]) simp

lemma unat_byte_le: "unat (b :: byte) \<le> 255"
  using unat_byte_less [of b] by simp

section \<open>Errors and outcomes\<close>

text \<open>
  Every error value the modelled sources create or pass on. \<open>BufferTooShort\<close> carries what
  the message of \<^verbatim>\<open>uio.Buffer.ReadN\<close> prints (position, bytes left, bytes wanted);
  \<open>DeadlineExceeded\<close> and \<open>Canceled\<close> are those of package \<^verbatim>\<open>context\<close>; \<open>WritingPacket\<close> and
  \<open>ReadingFromUDP\<close> wrap the error of a connection in a message;
  \<open>EnvError\<close> is an error that the operating system or another party handed in.
\<close>

datatype go_error =
    ErrInvalidOptions
  | ErrInvalidPacket
  | ErrOptionNotPresent
  | ErrUnexpectedEOF
  | BufferTooShort nat nat nat
  | BufferHasMoreBytes
  | BadMagicCookie "byte list"
  | CannotFreeUnallocated net_IP
  | NotUDPAddress
  | MustSupplyUDPAddr
  | DeadlineExceeded
  | Canceled
  | WritingPacket go_error
  | ReadingFromUDP go_error
  | DidntGetPacket
  | NoPacketReceived
  | EnvError nat

text \<open>What a Go call can do: return, panic at run time, or never come back.\<close>

datatype 'a outcome = Returns 'a | Panics | Diverges

fun obind :: "'a outcome \<Rightarrow> ('a \<Rightarrow> 'b outcome) \<Rightarrow> 'b outcome" where
  "obind (Returns x) f = f x"
| "obind Panics f = Panics"
| "obind Diverges f = Diverges"

text \<open>A recursion defined in the option domain has the value \<open>None\<close> where it does not end.\<close>

definition of_loop :: "'a outcome option \<Rightarrow> 'a outcome" where
  "of_loop r = (case r of None \<Rightarrow> Diverges | Some x \<Rightarrow> x)"

named_theorems outcome_simps \<open>rewriting of outcomes of Go calls\<close>

lemma obind_Returns_iff [outcome_simps]:
  "obind m f = Returns y \<longleftrightarrow> (\<exists>x. m = Returns x \<and> f x = Returns y)"
  by (cases m) auto

lemma obind_assoc [simp]: "obind (obind m f) g = obind m (\<lambda>x. obind (f x) g)"
  by (cases m) auto

lemma obind_Returns_right [simp]: "obind m Returns = m"
  by (cases m) auto

lemma of_loop_simps [simp]: "of_loop None = Diverges" "of_loop (Some x) = x"
  by (auto simp: of_loop_def)

section \<open>Built-in operations on slices\<close>

text \<open>\<open>copy(dst, src)\<close> overwrites a prefix of \<open>dst\<close> and returns how many bytes it copied.\<close>

definition go_copy :: "'a list \<Rightarrow> 'a list \<Rightarrow> 'a list" where
  "go_copy dst src = take (length dst) src @ drop (length src) dst"

definition go_copied :: "'a list \<Rightarrow> 'a list \<Rightarrow> nat" where
  "go_copied dst src = min (length dst) (length src)"

text \<open>\<open>make([]byte, n)\<close> and a \<open>[n]byte\<close> variable hold zeros.\<close>

definition zeros :: "nat \<Rightarrow> byte list" where
  "zeros n = replicate n 0"

text \<open>
  \<open>s[:n]\<close> and \<open>s[i] = v\<close> panic out of range. The range of the former is the capacity of the slice: \<open>spare\<close> is what the
  array holds between the length and the capacity.
\<close>

definition slice_to :: "'a list \<Rightarrow> 'a list \<Rightarrow> nat \<Rightarrow> 'a list outcome" where
  "slice_to spare xs n = (if n \<le> length (xs @ spare) then Returns (take n (xs @ spare)) else Panics)"

definition set_index :: "'a list \<Rightarrow> nat \<Rightarrow> 'a \<Rightarrow> 'a list outcome" where
  "set_index xs i v = (if i < length xs then Returns (xs[i := v]) else Panics)"

text \<open>The bytes of a slice that may be \<open>nil\<close>: a nil slice has length 0.\<close>

definition bytes_of :: "byte list option \<Rightarrow> byte list" where
  "bytes_of s = (case s of None \<Rightarrow> [] | Some xs \<Rightarrow> xs)"

lemma bytes_of_simps [simp]: "bytes_of None = []" "bytes_of (Some xs) = xs"
  by (simp_all add: bytes_of_def)

lemma length_zeros [simp]: "length (zeros n) = n"
  by (simp add: zeros_def)

lemma length_go_copy [simp]: "length (go_copy dst src) = length dst"
  by (simp add: go_copy_def)

lemma go_copy_exact: "length src = length dst \<Longrightarrow> go_copy dst src = src"
  by (simp add: go_copy_def)

lemma go_copy_Nil [simp]: "go_copy dst [] = dst"
  by (simp add: go_copy_def)

lemma go_copy_zeros: "length src \<le> n \<Longrightarrow> go_copy (zeros n) src = src @ zeros (n - length src)"
  by (simp add: go_copy_def zeros_def)

lemma slice_to_exact [simp]: "length xs = n \<Longrightarrow> slice_to spare xs n = Returns xs"
  by (simp add: slice_to_def)

lemma slice_to_long: "n \<le> length xs \<Longrightarrow> slice_to spare xs n = Returns (take n xs)"
  by (simp add: slice_to_def)

section \<open>Byte orders\<close>

datatype byteOrder = BigEndian | LittleEndian

text \<open>
  \<^verbatim>\<open>binary.ByteOrder\<close>: the big-endian bytes of a value, most significant first, and the
  value of such bytes. Little endian reverses the bytes.
\<close>

definition be16 :: "u16 \<Rightarrow> byte list" where
  "be16 v = [ucast (drop_bit 8 v), ucast v]"

definition be32 :: "u32 \<Rightarrow> byte list" where
  "be32 v = [ucast (drop_bit 24 v), ucast (drop_bit 16 v), ucast (drop_bit 8 v), ucast v]"

definition be64 :: "u64 \<Rightarrow> byte list" where
  "be64 v = [ucast (drop_bit 56 v), ucast (drop_bit 48 v), ucast (drop_bit 40 v),
     ucast (drop_bit 32 v), ucast (drop_bit 24 v), ucast (drop_bit 16 v),
     ucast (drop_bit 8 v), ucast v]"

fun word_of_be :: "byte list \<Rightarrow> 'a::len word \<Rightarrow> 'a word" where
  "word_of_be [] acc = acc"
| "word_of_be (b # bs) acc = word_of_be bs (push_bit 8 acc OR ucast b)"

definition in_order :: "byteOrder \<Rightarrow> byte list \<Rightarrow> byte list" where
  "in_order ord bs = (case ord of BigEndian \<Rightarrow> bs | LittleEndian \<Rightarrow> rev bs)"

definition PutUint16 :: "byteOrder \<Rightarrow> u16 \<Rightarrow> byte list" where
  "PutUint16 ord v = in_order ord (be16 v)"

definition PutUint32 :: "byteOrder \<Rightarrow> u32 \<Rightarrow> byte list" where
  "PutUint32 ord v = in_order ord (be32 v)"

definition PutUint64 :: "byteOrder \<Rightarrow> u64 \<Rightarrow> byte list" where
  "PutUint64 ord v = in_order ord (be64 v)"

definition Uint16_of :: "byteOrder \<Rightarrow> byte list \<Rightarrow> u16" where
  "Uint16_of ord bs = word_of_be (in_order ord bs) 0"

definition Uint32_of :: "byteOrder \<Rightarrow> byte list \<Rightarrow> u32" where
  "Uint32_of ord bs = word_of_be (in_order ord bs) 0"

definition Uint64_of :: "byteOrder \<Rightarrow> byte list \<Rightarrow> u64" where
  "Uint64_of ord bs = word_of_be (in_order ord bs) 0"

lemmas byte_order_defs = PutUint16_def PutUint32_def PutUint64_def
  Uint16_of_def Uint32_of_def Uint64_of_def in_order_def

lemma length_in_order [simp]: "length (in_order ord bs) = length bs"
  by (cases ord) (auto simp: in_order_def)

lemma in_order_in_order [simp]: "in_order ord (in_order ord bs) = bs"
  by (cases ord) (auto simp: in_order_def)

lemma length_Put [simp]:
  "length (PutUint16 ord v) = 2" "length (PutUint32 ord w) = 4" "length (PutUint64 ord x) = 8"
  by (simp_all add: PutUint16_def PutUint32_def PutUint64_def be16_def be32_def be64_def)

text \<open>Reading bytes most significant first: each step appends one byte below the ones read.\<close>

lemma byte_step:
  fixes v :: "'a::len word"
  shows "push_bit 8 (drop_bit (k + 8) v) OR ucast (ucast (drop_bit k v) :: byte) = drop_bit k v"
proof (rule bit_word_eqI)
  fix n
  assume n: "n < LENGTH('a)"
  show "bit (push_bit 8 (drop_bit (k + 8) v) OR ucast (ucast (drop_bit k v) :: byte)) n
    \<longleftrightarrow> bit (drop_bit k v) n"
  proof (cases "n < 8")
    case False
    then have "k + (8 + (n - 8)) = k + n" by simp
    with n False show ?thesis by (simp add: bit_simps ac_simps)
  qed (use n in \<open>auto simp: bit_simps\<close>)
qed

lemma byte_top:
  fixes v :: "'a::len word"
  shows "LENGTH('a) \<le> k + 8 \<Longrightarrow> ucast (ucast (drop_bit k v) :: byte) = drop_bit k v"
  by (rule bit_word_eqI) (auto simp: bit_simps dest: bit_imp_le_length)

lemma word_of_be_be16: "word_of_be (be16 v) 0 = v"
  using byte_step [of 0 v] byte_top [of 8 v] by (simp add: be16_def)

lemma word_of_be_be32: "word_of_be (be32 v) 0 = v"
  using byte_step [of 0 v] byte_step [of 8 v] byte_step [of 16 v] byte_top [of 24 v]
  by (simp add: be32_def)

lemma word_of_be_be64: "word_of_be (be64 v) 0 = v"
  using byte_step [of 0 v] byte_step [of 8 v] byte_step [of 16 v] byte_step [of 24 v]
    byte_step [of 32 v] byte_step [of 40 v] byte_step [of 48 v] byte_top [of 56 v]
  by (simp add: be64_def)

lemma Uint_Put [simp]:
  "Uint16_of ord (PutUint16 ord v) = v"
  "Uint32_of ord (PutUint32 ord w) = w"
  "Uint64_of ord (PutUint64 ord x) = x"
  by (simp_all add: PutUint16_def Uint16_of_def PutUint32_def Uint32_of_def PutUint64_def
      Uint64_of_def word_of_be_be16 word_of_be_be32 word_of_be_be64)

section \<open>Lists\<close>

lemma length_2_conv: "length xs = 2 \<longleftrightarrow> (\<exists>a b. xs = [a, b])"
  by (auto simp: numeral_eq_Suc length_Suc_conv)

lemma length_4_conv: "length xs = 4 \<longleftrightarrow> (\<exists>a b c d. xs = [a, b, c, d])"
  by (auto simp: numeral_eq_Suc length_Suc_conv)

text \<open>And back: the low byte is the last one read, the rest is the value read before it.\<close>

lemma byte_low:
  fixes x :: "'a::len word" and b :: byte
  shows "8 \<le> LENGTH('a) \<Longrightarrow> ucast (push_bit 8 x OR ucast b) = b"
  by (rule bit_word_eqI) (auto simp: bit_simps dest: bit_imp_le_length)

lemma be16_word_of_be: "length bs = 2 \<Longrightarrow> be16 (word_of_be bs 0) = bs"
  by (auto simp: length_2_conv be16_def byte_low intro!: bit_word_eqI)
     (auto simp: bit_simps dest: bit_imp_le_length)

lemma Put_Uint:
  "length bs = 2 \<Longrightarrow> PutUint16 ord (Uint16_of ord bs) = bs"
  by (simp add: PutUint16_def Uint16_of_def be16_word_of_be)

text \<open>The first position of a byte, as \<^verbatim>\<open>strings.Index\<close> finds it.\<close>

fun index_of :: "'a \<Rightarrow> 'a list \<Rightarrow> nat option" where
  "index_of y [] = None"
| "index_of y (x # xs) = (if x = y then Some 0 else map_option Suc (index_of y xs))"

lemma index_of_append_new: "y \<notin> set xs \<Longrightarrow> index_of y (xs @ y # ys) = Some (length xs)"
  by (induction xs) auto

lemma index_of_None_iff: "index_of y xs = None \<longleftrightarrow> y \<notin> set xs"
  by (induction xs) auto

lemma index_of_Some:
  "index_of y xs = Some i \<Longrightarrow> i < length xs \<and> xs ! i = y \<and> y \<notin> set (take i xs)"
  by (induction xs arbitrary: i) (auto split: if_splits)

section \<open>Bytes as a number\<close>

text \<open>The number that a byte sequence denotes in network byte order.\<close>

definition be_val :: "byte list \<Rightarrow> nat" where
  "be_val bs = foldl (\<lambda>a b. a * 256 + unat b) 0 bs"

lemma be_val_simps [simp]: "be_val [] = 0" "be_val (bs @ [b]) = be_val bs * 256 + unat b"
  by (simp_all add: be_val_def)

lemma be_val_less: "be_val bs < 256 ^ length bs"
proof (induction bs rule: rev_induct)
  case (snoc b bs)
  then have "be_val bs * 256 + unat b < (be_val bs + 1) * 256"
    using unat_byte_less [of b] by simp
  also have "\<dots> \<le> 256 ^ length bs * 256"
    using snoc by (intro mult_right_mono) auto
  finally show ?case by simp
qed simp

lemma be_val_inject: "length xs = length ys \<Longrightarrow> be_val xs = be_val ys \<Longrightarrow> xs = ys"
proof (induction xs arbitrary: ys rule: rev_induct)
  case (snoc x xs)
  then obtain y zs where ys: "ys = zs @ [y]" by (metis length_append_singleton length_Suc_conv_rev)
  with snoc.prems(2) have e: "be_val xs * 256 + unat x = be_val zs * 256 + unat y" by simp
  have "be_val xs = be_val zs"
    using arg_cong [OF e, of "\<lambda>n. n div 256"] unat_byte_less [of x] unat_byte_less [of y] by simp
  moreover from this e have "x = y" by (simp add: word_unat_eq_iff)
  ultimately show ?case using snoc ys by simp
qed simp

lemma word_of_be_snoc: "word_of_be (bs @ [b]) acc = push_bit 8 (word_of_be bs acc) OR ucast b"
  by (induction bs arbitrary: acc) simp_all

lemma push_or: "push_bit 8 (x :: 'a::len word) OR ucast (b::byte) = x * 256 + of_nat (unat b)"
proof -
  have "push_bit 8 x OR ucast b = push_bit 8 x + ucast b"
    by (rule disjunctive_add_eq_or [symmetric])
      (rule bit_word_eqI, auto simp: bit_simps dest: bit_imp_le_length)
  also have "ucast b = (of_nat (unat b) :: 'a word)" by simp
  finally show ?thesis by (simp add: push_bit_eq_mult)
qed

lemma word_of_be_of_nat: "word_of_be bs 0 = of_nat (be_val bs)"
  by (induction bs rule: rev_induct) (simp_all add: word_of_be_snoc push_or)

lemma be_val_bound: "8 * length bs \<le> n \<Longrightarrow> be_val bs < 2 ^ n"
proof -
  assume n: "8 * length bs \<le> n"
  have "be_val bs < (2 ^ 8) ^ length bs" using be_val_less [of bs] by simp
  also have "\<dots> = 2 ^ (8 * length bs)" by (simp only: power_mult)
  also have "\<dots> \<le> 2 ^ n" using n by (intro power_increasing) auto
  finally show ?thesis .
qed

lemma unat_word_of_be: "8 * length bs \<le> LENGTH('a) \<Longrightarrow> unat (word_of_be bs 0 :: 'a::len word) = be_val bs"
  using be_val_bound [of bs "LENGTH('a)"] by (simp add: word_of_be_of_nat unat_of_nat take_bit_eq_mod)

lemma push_or_and: "(push_bit 8 x OR ucast (a::byte)) AND (push_bit 8 y OR ucast (b::byte)) =
   push_bit 8 (x AND y) OR ucast (a AND b)"
  for x y :: "'a::len word"
  by (rule bit_word_eqI) (auto simp: bit_simps dest: bit_imp_le_length)

lemma word_of_be_and: "length xs = length ys \<Longrightarrow>
  word_of_be (map2 (AND) xs ys) (a AND b) = word_of_be xs a AND word_of_be ys b"
  by (induction xs ys arbitrary: a b rule: list_induct2) (simp_all add: push_or_and [symmetric] del: push_bit_and)

lemma eq_AND_NOT_mask: "x AND NOT (mask k) = y AND NOT (mask k) \<longleftrightarrow> drop_bit k x = drop_bit k y"
  for x y :: "'a::len word"
proof
  assume l: "x AND NOT (mask k) = y AND NOT (mask k)"
  have *: "drop_bit k (z AND NOT (mask k)) = drop_bit k z" for z :: "'a word"
    by (rule bit_word_eqI) (auto simp: bit_simps dest: bit_imp_le_length)
  show "drop_bit k x = drop_bit k y" using arg_cong [OF l, of "drop_bit k"] by (simp only: *)
next
  assume r: "drop_bit k x = drop_bit k y"
  have *: "z AND NOT (mask k) = push_bit k (drop_bit k z)" for z :: "'a word"
    by (rule bit_word_eqI) (auto simp: bit_simps)
  show "x AND NOT (mask k) = y AND NOT (mask k)" by (simp add: * r)
qed
end
