(* ===== verification/Const.thy ===== *)
theory Const
  imports Prelude
begin

text \<open>
  The constants of \<^verbatim>\<open>const.go\<close>: BOOTP op codes and DHCP option codes (RFC 2131, RFC 2132), with
  their values. They unfold by the simplifier.
\<close>

type_synonym OpCode = byte
type_synonym OptionCode = byte

definition BootRequest :: OpCode where [simp]: "BootRequest = 1"
definition BootReply :: OpCode where [simp]: "BootReply = 2"
definition End :: OptionCode where [simp]: "End = 255"
definition Pad :: OptionCode where [simp]: "Pad = 0"
definition OptionSubnetMask :: OptionCode where [simp]: "OptionSubnetMask = 1"
definition OptionTimeOffset :: OptionCode where [simp]: "OptionTimeOffset = 2"
definition OptionRouters :: OptionCode where [simp]: "OptionRouters = 3"
definition OptionTimeServers :: OptionCode where [simp]: "OptionTimeServers = 4"
definition OptionNameServers :: OptionCode where [simp]: "OptionNameServers = 5"
definition OptionDomainNameServers :: OptionCode where [simp]: "OptionDomainNameServers = 6"
definition OptionLogServers :: OptionCode where [simp]: "OptionLogServers = 7"
definition OptionCookieServers :: OptionCode where [simp]: "OptionCookieServers = 8"
definition OptionLPRServers :: OptionCode where [simp]: "OptionLPRServers = 9"
definition OptionImpressServers :: OptionCode where [simp]: "OptionImpressServers = 10"
definition OptionResourceLocationServers :: OptionCode where [simp]: "OptionResourceLocationServers = 11"
definition OptionHostName :: OptionCode where [simp]: "OptionHostName = 12"
definition OptionBootFileSize :: OptionCode where [simp]: "OptionBootFileSize = 13"
definition OptionMeritDumpFile :: OptionCode where [simp]: "OptionMeritDumpFile = 14"
definition OptionDomainName :: OptionCode where [simp]: "OptionDomainName = 15"
definition OptionSwapServer :: OptionCode where [simp]: "OptionSwapServer = 16"
definition OptionRootPath :: OptionCode where [simp]: "OptionRootPath = 17"
definition OptionExtensionsPath :: OptionCode where [simp]: "OptionExtensionsPath = 18"
definition OptionIPForwardingEnableDisable :: OptionCode where [simp]: "OptionIPForwardingEnableDisable = 19"
definition OptionNonLocalSourceRoutingEnableDisable :: OptionCode where [simp]: "OptionNonLocalSourceRoutingEnableDisable = 20"
definition OptionPolicyFilter :: OptionCode where [simp]: "OptionPolicyFilter = 21"
definition OptionMaximumDatagramReassemblySize :: OptionCode where [simp]: "OptionMaximumDatagramReassemblySize = 22"
definition OptionDefaultIPTimeToLive :: OptionCode where [simp]: "OptionDefaultIPTimeToLive = 23"
definition OptionPathMTUAgingTimeout :: OptionCode where [simp]: "OptionPathMTUAgingTimeout = 24"
definition OptionPathMTUPlateauTable :: OptionCode where [simp]: "OptionPathMTUPlateauTable = 25"
definition OptionInterfaceMTU :: OptionCode where [simp]: "OptionInterfaceMTU = 26"
definition OptionAllSubnetsAreLocal :: OptionCode where [simp]: "OptionAllSubnetsAreLocal = 27"
definition OptionBroadcastAddress :: OptionCode where [simp]: "OptionBroadcastAddress = 28"
definition OptionPerformMaskDiscovery :: OptionCode where [simp]: "OptionPerformMaskDiscovery = 29"
definition OptionMaskSupplier :: OptionCode where [simp]: "OptionMaskSupplier = 30"
definition OptionPerformRouterDiscovery :: OptionCode where [simp]: "OptionPerformRouterDiscovery = 31"
definition OptionRouterSolicitationAddress :: OptionCode where [simp]: "OptionRouterSolicitationAddress = 32"
definition OptionStaticRoute :: OptionCode where [simp]: "OptionStaticRoute = 33"
definition OptionTrailerEncapsulation :: OptionCode where [simp]: "OptionTrailerEncapsulation = 34"
definition OptionARPCacheTimeout :: OptionCode where [simp]: "OptionARPCacheTimeout = 35"
definition OptionEthernetEncapsulation :: OptionCode where [simp]: "OptionEthernetEncapsulation = 36"
definition OptionTCPDefaultTTL :: OptionCode where [simp]: "OptionTCPDefaultTTL = 37"
definition OptionTCPKeepaliveInterval :: OptionCode where [simp]: "OptionTCPKeepaliveInterval = 38"
definition OptionTCPKeepaliveGarbage :: OptionCode where [simp]: "OptionTCPKeepaliveGarbage = 39"
definition OptionNetworkInformationServiceDomain :: OptionCode where [simp]: "OptionNetworkInformationServiceDomain = 40"
definition OptionNetworkInformationServers :: OptionCode where [simp]: "OptionNetworkInformationServers = 41"
definition OptionNetworkTimeProtocolServers :: OptionCode where [simp]: "OptionNetworkTimeProtocolServers = 42"
definition OptionVendorSpecificInformation :: OptionCode where [simp]: "OptionVendorSpecificInformation = 43"
definition OptionNetBIOSOverTCPIPNameServer :: OptionCode where [simp]: "OptionNetBIOSOverTCPIPNameServer = 44"
definition OptionNetBIOSOverTCPIPDatagramDistributionServer :: OptionCode where [simp]: "OptionNetBIOSOverTCPIPDatagramDistributionServer = 45"
definition OptionNetBIOSOverTCPIPNodeType :: OptionCode where [simp]: "OptionNetBIOSOverTCPIPNodeType = 46"
definition OptionNetBIOSOverTCPIPScope :: OptionCode where [simp]: "OptionNetBIOSOverTCPIPScope = 47"
definition OptionXWindowSystemFontServer :: OptionCode where [simp]: "OptionXWindowSystemFontServer = 48"
definition OptionXWindowSystemDisplayManager :: OptionCode where [simp]: "OptionXWindowSystemDisplayManager = 49"
definition OptionRequestedIPAddress :: OptionCode where [simp]: "OptionRequestedIPAddress = 50"
definition OptionIPAddressLeaseTime :: OptionCode where [simp]: "OptionIPAddressLeaseTime = 51"
definition OptionOverload :: OptionCode where [simp]: "OptionOverload = 52"
definition OptionDHCPMessageType :: OptionCode where [simp]: "OptionDHCPMessageType = 53"
definition OptionServerIdentifier :: OptionCode where [simp]: "OptionServerIdentifier = 54"
definition OptionParameterRequestList :: OptionCode where [simp]: "OptionParameterRequestList = 55"
definition OptionMessage :: OptionCode where [simp]: "OptionMessage = 56"
definition OptionMaximumDHCPMessageSize :: OptionCode where [simp]: "OptionMaximumDHCPMessageSize = 57"
definition OptionRenewalTimeValue :: OptionCode where [simp]: "OptionRenewalTimeValue = 58"
definition OptionRebindingTimeValue :: OptionCode where [simp]: "OptionRebindingTimeValue = 59"
definition OptionVendorClassIdentifier :: OptionCode where [simp]: "OptionVendorClassIdentifier = 60"
definition OptionClientIdentifier :: OptionCode where [simp]: "OptionClientIdentifier = 61"
definition OptionTFTPServerName :: OptionCode where [simp]: "OptionTFTPServerName = 66"
definition OptionBootFileName :: OptionCode where [simp]: "OptionBootFileName = 67"

text \<open>All option codes, in increasing order.\<close>

definition all_codes :: "OptionCode list" where
  "all_codes = map of_nat [0..<256]"

lemma set_all_codes [simp]: "set all_codes = UNIV"
proof -
  have "c \<in> of_nat ` {0..<256}" for c :: OptionCode
    by (rule image_eqI [of _ _ "unat c"]) (use unsigned_less [of c] in auto)
  then show ?thesis by (auto simp: all_codes_def)
qed

lemma map_unat_all_codes: "map unat all_codes = [0..<256]"
proof -
  have "unat (of_nat n :: OptionCode) = n" if "n < 256" for n
    using that by (simp add: unat_of_nat take_bit_eq_mod)
  then show ?thesis by (simp add: all_codes_def list_eq_iff_nth_eq)
qed

lemma distinct_all_codes [simp]: "distinct all_codes"
  using map_unat_all_codes by (metis distinct_map distinct_upt)

end
