(* ===== verification/Uio.thy ===== *)
theory Uio
  imports Prelude
begin

text \<open>
  The byte buffer and lexer of \<^verbatim>\<open>vendor/github.com/u-root/u-root/pkg/uio/buffer.go\<close>, on which
  every encoder and decoder of the repository is built. A \<open>Lexer\<close> embeds a \<open>*Buffer\<close>, so its
  record extends the buffer's. Reading operations are state-monad actions on the lexer;
  writing operations are functions from lexer to lexer. The data of a buffer is taken to be
  a non-nil slice.
\<close>

section \<open>Buffer\<close>

record Buffer =
  data :: "byte list"
  byteCount :: nat

record Lexer = Buffer +
  order :: byteOrder
  err :: "go_error option"

definition NewBuffer :: "byte list \<Rightarrow> Buffer" where
  "NewBuffer b = \<lparr>data = b, byteCount = 0\<rparr>"

text \<open>Increasing the capacity appends an empty slice: the data stays as it is.\<close>

definition Preallocate :: "nat \<Rightarrow> 'a Buffer_scheme \<Rightarrow> 'a Buffer_scheme" where
  "Preallocate n b = b\<lparr>data := data b @ []\<rparr>"

text \<open>
  \<open>WriteN\<close> appends \<open>n\<close> zero bytes and returns the slice of them, through which its callers
  fill them in. The model returns the new buffer; \<open>fill\<close> is the assignment through the
  returned slice, which aliases the last bytes of the data.
\<close>

definition WriteN :: "nat \<Rightarrow> 'a Buffer_scheme \<Rightarrow> 'a Buffer_scheme" where
  "WriteN n b = b\<lparr>data := data b @ zeros n\<rparr>"

definition fill :: "byte list \<Rightarrow> nat \<Rightarrow> 'a Buffer_scheme \<Rightarrow> 'a Buffer_scheme" where
  "fill src n b = (let start = length (data b) - n in
     b\<lparr>data := take start (data b) @ go_copy (drop start (data b)) src\<rparr>)"

definition Has :: "nat \<Rightarrow> 'a Buffer_scheme \<Rightarrow> bool" where
  "Has n b \<longleftrightarrow> n \<le> length (data b)"

definition Len :: "'a Buffer_scheme \<Rightarrow> nat" where
  "Len b = length (data b)"

definition ReadN :: "nat \<Rightarrow> 'a Buffer_scheme \<Rightarrow> (go_error + byte list) \<times> 'a Buffer_scheme" where
  "ReadN n b =
     (if \<not> Has n b then (Inl (BufferTooShort (byteCount b) (Len b) n), b)
      else let rval = take n (data b) in
        (Inr rval, b\<lparr>data := drop n (data b), byteCount := byteCount b + n\<rparr>))"

section \<open>Lexer\<close>

definition NewLexer :: "Buffer \<Rightarrow> byteOrder \<Rightarrow> Lexer" where
  "NewLexer b ord = \<lparr>data = data b, byteCount = byteCount b, order = ord, err = None\<rparr>"

definition NewBigEndianBuffer :: "byte list \<Rightarrow> Lexer" where
  "NewBigEndianBuffer b = NewLexer (NewBuffer b) BigEndian"

definition NewLittleEndianBuffer :: "byte list \<Rightarrow> Lexer" where
  "NewLittleEndianBuffer b = NewLexer (NewBuffer b) LittleEndian"

definition setError :: "go_error \<Rightarrow> Lexer \<Rightarrow> Lexer" where
  "setError e l = (if err l = None then l\<lparr>err := Some e\<rparr> else l)"

type_synonym 'a reader = "(Lexer, 'a) state"

definition Consume :: "nat \<Rightarrow> byte list option reader" where
  "Consume n = State (\<lambda>l. case ReadN n l of
     (Inl e, l') \<Rightarrow> (None, setError e l')
   | (Inr v, l') \<Rightarrow> (Some v, l'))"

definition FinError :: "Lexer \<Rightarrow> go_error option" where
  "FinError l =
     (if err l \<noteq> None then err l
      else if 0 < Len l then Some BufferHasMoreBytes
      else None)"

text \<open>\<open>v[0]\<close> is in range: \<open>Consume(1)\<close> returns one byte or nil.\<close>

definition Read8 :: "byte reader" where
  "Read8 = do {
     v \<leftarrow> Consume 1;
     State_Monad.return (case v of None \<Rightarrow> 0 | Some v \<Rightarrow> hd v) }"

definition Read16 :: "u16 reader" where
  "Read16 = do {
     v \<leftarrow> Consume 2;
     l \<leftarrow> State_Monad.get;
     State_Monad.return (case v of None \<Rightarrow> 0 | Some v \<Rightarrow> Uint16_of (order l) v) }"

definition Read32 :: "u32 reader" where
  "Read32 = do {
     v \<leftarrow> Consume 4;
     l \<leftarrow> State_Monad.get;
     State_Monad.return (case v of None \<Rightarrow> 0 | Some v \<Rightarrow> Uint32_of (order l) v) }"

definition Read64 :: "u64 reader" where
  "Read64 = do {
     v \<leftarrow> Consume 8;
     l \<leftarrow> State_Monad.get;
     State_Monad.return (case v of None \<Rightarrow> 0 | Some v \<Rightarrow> Uint64_of (order l) v) }"

definition CopyN :: "nat \<Rightarrow> byte list option reader" where
  "CopyN n = do {
     v \<leftarrow> Consume n;
     State_Monad.return (case v of None \<Rightarrow> None
       | Some v \<Rightarrow> Some (take (go_copied (zeros n) v) (go_copy (zeros n) v))) }"

definition ReadAll :: "byte list option reader" where
  "ReadAll = do { l \<leftarrow> State_Monad.get; CopyN (Len l) }"

text \<open>\<open>ReadBytes(p)\<close> copies into the slice it is given; the action returns its new contents.\<close>

definition ReadBytes :: "byte list \<Rightarrow> byte list reader" where
  "ReadBytes p = do {
     v \<leftarrow> Consume (length p);
     State_Monad.return (go_copy p (bytes_of v)) }"

text \<open>\<open>Read(p)\<close> of the \<open>io.Reader\<close> interface: the filled slice, the count and the error.\<close>

definition Lexer_Read :: "byte list \<Rightarrow> (byte list \<times> nat \<times> go_error option) reader" where
  "Lexer_Read p = do {
     v \<leftarrow> Consume (length p);
     l \<leftarrow> State_Monad.get;
     State_Monad.return (case v of None \<Rightarrow> (p, 0, err l)
       | Some v \<Rightarrow> (go_copy p v, go_copied p v, None)) }"

definition Write8 :: "byte \<Rightarrow> Lexer \<Rightarrow> Lexer" where
  "Write8 v l = fill [v] 1 (WriteN 1 l)"

definition Write16 :: "u16 \<Rightarrow> Lexer \<Rightarrow> Lexer" where
  "Write16 v l = fill (PutUint16 (order l) v) 2 (WriteN 2 l)"

definition Write32 :: "u32 \<Rightarrow> Lexer \<Rightarrow> Lexer" where
  "Write32 v l = fill (PutUint32 (order l) v) 4 (WriteN 4 l)"

definition Write64 :: "u64 \<Rightarrow> Lexer \<Rightarrow> Lexer" where
  "Write64 v l = fill (PutUint64 (order l) v) 8 (WriteN 8 l)"

definition WriteBytes :: "byte list \<Rightarrow> Lexer \<Rightarrow> Lexer" where
  "WriteBytes p l = fill p (length p) (WriteN (length p) l)"

lemma NewBigEndianBuffer_eq:
  "NewBigEndianBuffer b = \<lparr>data = b, byteCount = 0, order = BigEndian, err = None\<rparr>"
  by (simp add: NewBigEndianBuffer_def NewLexer_def NewBuffer_def)

section \<open>Writing appends\<close>

named_theorems write_simps \<open>the data of a lexer after a write\<close>

lemma fill_WriteN: "fill src n (WriteN n b) = b\<lparr>data := data b @ go_copy (zeros n) src\<rparr>"
  by (simp add: fill_def WriteN_def)

lemma write_data [write_simps]:
  "Write8 v l = l\<lparr>data := data l @ [v]\<rparr>"
  "Write16 w l = l\<lparr>data := data l @ PutUint16 (order l) w\<rparr>"
  "Write32 x l = l\<lparr>data := data l @ PutUint32 (order l) x\<rparr>"
  "Write64 y l = l\<lparr>data := data l @ PutUint64 (order l) y\<rparr>"
  "WriteBytes p l = l\<lparr>data := data l @ p\<rparr>"
  by (simp_all add: Write8_def Write16_def Write32_def Write64_def WriteBytes_def fill_WriteN
      go_copy_exact)

lemma Preallocate_id: "Preallocate n b = b"
  by (simp add: Preallocate_def)

section \<open>Reading\<close>

named_theorems read_simps \<open>the result of reading a known prefix\<close>

text \<open>The lexer after \<open>n\<close> bytes have been consumed.\<close>

definition advance :: "nat \<Rightarrow> Lexer \<Rightarrow> Lexer" where
  "advance n l = l\<lparr>data := drop n (data l), byteCount := byteCount l + n\<rparr>"

lemma advance_simps [simp]:
  "data (advance n l) = drop n (data l)"
  "byteCount (advance n l) = byteCount l + n"
  "order (advance n l) = order l"
  "err (advance n l) = err l"
  by (simp_all add: advance_def)

lemma advance_0 [simp]: "advance 0 l = l"
  by (simp add: advance_def)

lemma advance_advance [simp]: "advance m (advance n l) = advance (n + m) l"
  by (simp add: advance_def add.commute add.left_commute)

lemma setError_simps [simp]:
  "data (setError e l) = data l"
  "byteCount (setError e l) = byteCount l"
  "order (setError e l) = order l"
  "err (setError e l) \<noteq> None"
  "err l = Some e' \<Longrightarrow> setError e l = l"
  by (auto simp: setError_def)

lemma run_Consume:
  "run_state (Consume n) l =
     (if n \<le> length (data l) then (Some (take n (data l)), advance n l)
      else (None, setError (BufferTooShort (byteCount l) (length (data l)) n) l))"
  by (simp add: Consume_def ReadN_def Has_def Len_def advance_def)

lemma take_1_hd: "1 \<le> length xs \<Longrightarrow> hd (take 1 xs) = hd xs"
  by (cases xs) auto

text \<open>
  \<open>reads n m\<close>: when the action \<open>m\<close> ends without an error on record, there was none before it
  and it has consumed \<open>n\<close> bytes. The widths of actions in sequence add up.
\<close>

definition reads :: "nat \<Rightarrow> 'a reader \<Rightarrow> bool" where
  "reads n m \<longleftrightarrow> (\<forall>l. err (snd (run_state m l)) = None \<longrightarrow>
     err l = None \<and> n \<le> length (data l) \<and> data (snd (run_state m l)) = drop n (data l))"

lemma reads_return: "reads 0 (State_Monad.return x)"
  by (simp add: reads_def State_Monad.return_def)

lemma reads_bind:
  assumes "reads m r" and "\<And>x. reads n (f x)"
  shows "reads (m + n) (State_Monad.bind r f)"
  unfolding reads_def
proof (intro allI impI)
  fix l
  obtain x l1 where r: "run_state r l = (x, l1)" by fastforce
  assume "err (snd (run_state (State_Monad.bind r f) l)) = None"
  then have f: "err (snd (run_state (f x) l1)) = None" using r by simp
  with assms(2) have "err l1 = None \<and> n \<le> length (data l1)
      \<and> data (snd (run_state (f x) l1)) = drop n (data l1)"
    by (auto simp: reads_def)
  moreover with assms(1) r have "err l = None \<and> m \<le> length (data l) \<and> data l1 = drop m (data l)"
    unfolding reads_def by (metis snd_conv)
  ultimately show "err l = None \<and> m + n \<le> length (data l) \<and>
      data (snd (run_state (State_Monad.bind r f) l)) = drop (m + n) (data l)"
    using r by (auto simp: add.commute)
qed

text \<open>
  The interface of the reading operations: an operation of width \<open>n\<close> succeeds exactly when
  \<open>n\<close> bytes are left; then it consumes them, decodes them, and leaves the error alone.
  Otherwise it consumes nothing, returns its default, and records an error.
\<close>

locale fixed_reader =
  fixes rd :: "'a reader" and width :: nat and decode :: "byteOrder \<Rightarrow> byte list \<Rightarrow> 'a"
    and default :: 'a
  assumes run_ok: "width \<le> length (data l) \<Longrightarrow>
      run_state rd l = (decode (order l) (take width (data l)), advance width l)"
    and run_short: "\<not> width \<le> length (data l) \<Longrightarrow>
      run_state rd l = (default, setError (BufferTooShort (byteCount l) (length (data l)) width) l)"
begin

lemma run_append:
  "length xs = width \<Longrightarrow>
    run_state rd \<lparr>data = xs @ ys, byteCount = c, order = ord, err = e\<rparr> =
      (decode ord xs, \<lparr>data = ys, byteCount = c + width, order = ord, err = e\<rparr>)"
  by (simp add: run_ok advance_def)

text \<open>An error, once recorded, is never lost or replaced.\<close>

lemma err_sticky: "err l = Some e \<Longrightarrow> err (snd (run_state rd l)) = Some e"
  by (cases "width \<le> length (data l)") (simp_all add: run_ok run_short)

lemma no_err_after:
  "err (snd (run_state rd l)) = None \<longleftrightarrow> err l = None \<and> width \<le> length (data l)"
  by (cases "width \<le> length (data l)") (simp_all add: run_ok run_short)

lemma data_after_le: "length (data (snd (run_state rd l))) \<le> length (data l)"
  by (cases "width \<le> length (data l)") (simp_all add: run_ok run_short)

lemma reads_width: "reads width rd"
  by (auto simp: reads_def no_err_after run_ok)

lemma data_after:
  "err (snd (run_state rd l)) = None \<Longrightarrow> data (snd (run_state rd l)) = drop width (data l)"
  by (simp add: no_err_after run_ok)

end

lemma Consume_reader:
  "run_state (Consume n) l = (r, l') \<Longrightarrow> n \<le> length (data l) \<longleftrightarrow> r \<noteq> None"
  by (auto simp: run_Consume split: if_splits)

interpretation Read8: fixed_reader Read8 1 "\<lambda>_ v. hd v" 0
  by unfold_locales (simp_all add: Read8_def run_Consume)

interpretation Read16: fixed_reader Read16 2 Uint16_of 0
  by unfold_locales (simp_all add: Read16_def run_Consume)

interpretation Read32: fixed_reader Read32 4 Uint32_of 0
  by unfold_locales (simp_all add: Read32_def run_Consume)

interpretation Read64: fixed_reader Read64 8 Uint64_of 0
  by unfold_locales (simp_all add: Read64_def run_Consume)

interpretation CopyN: fixed_reader "CopyN n" n "\<lambda>_ v. Some v" None
  by unfold_locales (simp_all add: CopyN_def run_Consume go_copied_def go_copy_exact)

interpretation ReadBytes: fixed_reader "ReadBytes p" "length p" "\<lambda>_ v. v" p
  by unfold_locales (simp_all add: ReadBytes_def run_Consume go_copy_exact)

lemma reads_ReadBytes: "length p = n \<Longrightarrow> reads n (ReadBytes p)"
  using ReadBytes.reads_width by blast

lemmas read_append [read_simps] =
  Read8.run_append [where xs = "[x]" for x, simplified]
  Read16.run_append Read32.run_append CopyN.run_append ReadBytes.run_append

section \<open>Properties\<close>

text \<open>
  What a lexer writes, a lexer of the same byte order reads back: a byte, 16-, 32- and 64-bit
  values and a byte string written one after the other are read back unchanged, without an
  error, and nothing is left over.
\<close>

lemma Lexer_write_read:
  "\<exists>l'. run_state
      (do { a' \<leftarrow> Read8; b' \<leftarrow> Read16; c' \<leftarrow> Read32; d' \<leftarrow> Read64; p' \<leftarrow> ReadBytes (zeros (length p));
            State_Monad.return (a', b', c', d', p') })
      (WriteBytes p (Write64 d (Write32 c (Write16 b (Write8 a (NewLexer (NewBuffer []) ord)))))) =
    ((a, b, c, d, p), l') \<and> FinError l' = None"
  by (simp add: NewLexer_def NewBuffer_def write_simps read_simps Read64.run_append
      ReadBytes.run_append [where ys = "[]", simplified] FinError_def Len_def)

text \<open>
  Read errors are sticky: once a lexer has recorded an error, no read replaces or clears it,
  and \<open>FinError\<close> reports that first error whatever was read in between.
\<close>

lemma Lexer_errors_sticky:
  assumes "err l = Some e"
  shows "FinError (snd (run_state (do { a \<leftarrow> Read8; b \<leftarrow> Read16; c \<leftarrow> Read32; d \<leftarrow> Read64;
      f \<leftarrow> CopyN n; ReadBytes p }) l)) = Some e"
  using assms
  by (simp add: FinError_def Read8.err_sticky Read16.err_sticky Read32.err_sticky Read64.err_sticky
      CopyN.err_sticky ReadBytes.err_sticky split: prod.split)
    (metis Read8.err_sticky Read16.err_sticky Read32.err_sticky Read64.err_sticky CopyN.err_sticky
      ReadBytes.err_sticky snd_conv option.distinct(1))

end
