(* ===== verification/Options.thy ===== *)
theory Options
  imports Const Uio
begin

text \<open>
  \<^verbatim>\<open>options.go\<close>: the map from option codes to option data, its lookup and update, and its wire
  format. A Go map is a partial function; the nil map reads like the empty one, and the
  repository only ever adds to maps made with \<open>make\<close>.
\<close>

section \<open>The map\<close>

type_synonym Options = "OptionCode \<rightharpoonup> byte list"

definition AddRaw :: "OptionCode \<Rightarrow> byte list \<Rightarrow> Options \<Rightarrow> Options" where
  "AddRaw key value opts = opts(key \<mapsto> bytes_of (opts key) @ value)"

text \<open>
  \<open>Add\<close> takes an \<open>encoding.BinaryMarshaler\<close>: \<open>None\<close> is the nil interface, \<open>Some m\<close> one whose
  \<open>MarshalBinary\<close> call has the outcome \<open>m\<close>.
\<close>

definition Options_Add ::
  "OptionCode \<Rightarrow> (go_error + byte list) outcome option \<Rightarrow> Options \<Rightarrow> (Options \<times> go_error option) outcome" where
  "Options_Add key value opts = (case value of
     None \<Rightarrow> Returns (AddRaw key [] opts, None)
   | Some m \<Rightarrow> obind m (\<lambda>r. case r of
         Inl e \<Rightarrow> Returns (opts, Some e)
       | Inr b \<Rightarrow> Returns (AddRaw key b opts, None)))"

definition Options_Get :: "OptionCode \<Rightarrow> Options \<Rightarrow> byte list option" where
  "Options_Get key opts = (case opts key of
     None \<Rightarrow> None
   | Some v \<Rightarrow> if length v = 0 then Some [] else Some v)"

lemma Options_Get_eq [simp]: "Options_Get key opts = opts key"
  by (auto simp: Options_Get_def split: option.split)

lemma AddRaw_apply:
  "AddRaw key value opts k = (if k = key then Some (bytes_of (opts key) @ value) else opts k)"
  by (simp add: AddRaw_def)

section \<open>Unmarshal\<close>

text \<open>How the first loop of \<open>Unmarshal\<close> is left: at \<open>End\<close>, at the end of the input, or by a return.\<close>

datatype loop_exit = SawEnd | RanOut | Returned go_error

lemma run_Read8:
  "run_state Read8 l = (if 1 \<le> length (data l) then (hd (data l), advance 1 l)
     else (0, setError (BufferTooShort (byteCount l) (length (data l)) 1) l))"
  by (cases "data l") (simp_all add: Read8.run_ok Read8.run_short)

function unmarshal_loop :: "Options \<Rightarrow> Lexer \<Rightarrow> (Options \<times> loop_exit) \<times> Lexer" where
  "unmarshal_loop opts buf =
     (if \<not> Has 1 buf then ((opts, RanOut), buf)
      else case run_state Read8 buf of (code, buf1) \<Rightarrow>
        if code = Pad then unmarshal_loop opts buf1
        else if code = End then ((opts, SawEnd), buf1)
        else if \<not> Has 1 buf1 then ((opts, Returned ErrUnexpectedEOF), buf1)
        else case run_state Read8 buf1 of (len8, buf2) \<Rightarrow>
          let len = unat len8 in
          if len = 0 then unmarshal_loop opts buf2
          else if \<not> Has len buf2 then ((opts, Returned ErrUnexpectedEOF), buf2)
          else case run_state (Consume len) buf2 of (d, buf3) \<Rightarrow>
            (case d of
               None \<Rightarrow> ((opts, Returned ErrUnexpectedEOF), buf3)
             | Some dat \<Rightarrow> unmarshal_loop (AddRaw code dat opts) buf3))"
  by pat_completeness auto
termination
  by (relation "measure (\<lambda>(opts, buf). length (data buf))")
    (auto simp: run_Read8 run_Consume Has_def split: if_splits)

declare unmarshal_loop.simps [simp del]

text \<open>Any bytes left must be padding.\<close>

function padding_loop :: "Lexer \<Rightarrow> go_error option \<times> Lexer" where
  "padding_loop buf =
     (if Has 1 buf then case run_state Read8 buf of (b, buf') \<Rightarrow>
        if b \<noteq> Pad then (Some ErrInvalidOptions, buf') else padding_loop buf'
      else (None, buf))"
  by pat_completeness auto
termination
  by (relation "measure (\<lambda>buf. length (data buf))") (auto simp: run_Read8 Has_def split: if_splits)

declare padding_loop.simps [simp del]

text \<open>
  The receiver is overwritten before anything is read, also when an error is returned, so the
  result holds the options map as well as the error.
\<close>

definition Options_Unmarshal :: "(Options \<times> go_error option) reader" where
  "Options_Unmarshal = State (\<lambda>buf.
     case unmarshal_loop Map.empty buf of
       ((opts, Returned e), buf') \<Rightarrow> ((opts, Some e), buf')
     | ((opts, RanOut), buf') \<Rightarrow> ((opts, Some ErrUnexpectedEOF), buf')
     | ((opts, SawEnd), buf') \<Rightarrow>
         (case padding_loop buf' of (e, buf'') \<Rightarrow> ((opts, e), buf'')))"

section \<open>Marshal\<close>

text \<open>
  The order in which \<open>range\<close> visits a map is not specified. \<open>range_keys\<close> is one such order;
  \<open>sortedKeys_any_order\<close> shows that the result does not depend on it.
\<close>

definition range_keys :: "Options \<Rightarrow> OptionCode list" where
  "range_keys opts = filter (\<lambda>k. opts k \<noteq> None) (rev all_codes)"

definition sortedKeys :: "Options \<Rightarrow> nat list" where
  "sortedKeys opts = sort (map unat (range_keys opts))"

text \<open>
  The inner loop. Its \<open>continue\<close> for \<open>End\<close> and \<open>Pad\<close> comes before \<open>data\<close> is shortened, so for
  these codes it may run forever: \<open>None\<close>.
\<close>

partial_function (option) marshal_loop :: "OptionCode \<Rightarrow> byte list \<Rightarrow> Lexer \<Rightarrow> Lexer option" where
  "marshal_loop code dat b =
     (if length dat > 0 then
        let b = Write8 code b in
        if code = End \<or> code = Pad then marshal_loop code dat b
        else let n = (if length dat > 255 then 255 else length dat);
                 b = Write8 (of_nat n) b;
                 b = WriteBytes (take n dat) b
             in marshal_loop code (drop n dat) b
      else Some b)"

fun marshal_keys :: "Options \<Rightarrow> nat list \<Rightarrow> Lexer \<Rightarrow> Lexer option" where
  "marshal_keys opts [] b = Some b"
| "marshal_keys opts (c # cs) b =
     (let code = of_nat c; dat = bytes_of (opts code) in
      case marshal_loop code dat b of
        None \<Rightarrow> None
      | Some b \<Rightarrow> marshal_keys opts cs b)"

definition Options_Marshal :: "Options \<Rightarrow> Lexer \<Rightarrow> Lexer outcome" where
  "Options_Marshal opts b = of_loop
     (case marshal_keys opts (sortedKeys opts) b of
        None \<Rightarrow> None
      | Some b \<Rightarrow> Some (Returns (if opts End = None then Write8 End b else b)))"

section \<open>The wire format as a reference\<close>

text \<open>
  What the bytes of an options field mean, independently of the two loops: a sequence of pad
  bytes and options (code, length, data), then \<open>End\<close>, then padding. RFC 3396: the data of an
  option that occurs more than once is concatenated.
\<close>

datatype wire_item = PadItem | OptItem OptionCode "byte list"

fun valid_item :: "wire_item \<Rightarrow> bool" where
  "valid_item PadItem \<longleftrightarrow> True"
| "valid_item (OptItem c d) \<longleftrightarrow> c \<noteq> Pad \<and> c \<noteq> End \<and> length d \<le> 255"

fun render_item :: "wire_item \<Rightarrow> byte list" where
  "render_item PadItem = [Pad]"
| "render_item (OptItem c d) = c # of_nat (length d) # d"

fun apply_item :: "wire_item \<Rightarrow> Options \<Rightarrow> Options" where
  "apply_item PadItem opts = opts"
| "apply_item (OptItem c d) opts =
    (if d = [] then opts else opts(c \<mapsto> (case opts c of None \<Rightarrow> d | Some d' \<Rightarrow> d' @ d)))"

definition wire :: "wire_item list \<Rightarrow> nat \<Rightarrow> byte list" where
  "wire items k = concat (map render_item items) @ [End] @ replicate k Pad"

text \<open>The data of an option: that of all its occurrences, one after the other.\<close>

fun item_data :: "OptionCode \<Rightarrow> wire_item \<Rightarrow> byte list" where
  "item_data k PadItem = []"
| "item_data k (OptItem c d) = (if c = k then d else [])"

definition options_of_items :: "wire_item list \<Rightarrow> Options" where
  "options_of_items items = (\<lambda>k. let d = concat (map (item_data k) items) in if d = [] then None else Some d)"

text \<open>RFC 3396 encoding of one option: pieces of at most 255 bytes.\<close>

fun chunks :: "byte list \<Rightarrow> byte list list" where
  "chunks d = (if d = [] then [] else take 255 d # chunks (drop 255 d))"

declare chunks.simps [simp del]

lemma chunks_Nil [simp]: "chunks [] = []"
  by (simp add: chunks.simps)

definition items_of_option :: "Options \<Rightarrow> nat \<Rightarrow> wire_item list" where
  "items_of_option opts c = map (OptItem (of_nat c)) (chunks (bytes_of (opts (of_nat c))))"

text \<open>The options of a map in the increasing order of their codes.\<close>

definition items_of_options :: "Options \<Rightarrow> wire_item list" where
  "items_of_options opts = concat (map (items_of_option opts) (filter (\<lambda>c. opts (of_nat c) \<noteq> None) [0..<256]))"

text \<open>
  The options the code can put on the wire: \<open>Pad\<close> and \<open>End\<close> carry no data, and \<open>End\<close> is not
  a key. Options without data are not written.
\<close>

definition marshalable :: "Options \<Rightarrow> bool" where
  "marshalable opts \<longleftrightarrow> bytes_of (opts Pad) = [] \<and> opts End = None"

definition drop_empty :: "Options \<Rightarrow> Options" where
  "drop_empty opts = (\<lambda>k. if opts k = Some [] then None else opts k)"

section \<open>sortedKeys\<close>

lemma set_range_keys [simp]: "set (range_keys opts) = dom opts"
  by (auto simp: range_keys_def)

lemma distinct_range_keys [simp]: "distinct (range_keys opts)"
  by (simp add: range_keys_def)

lemma inj_unat: "inj (unat :: OptionCode \<Rightarrow> nat)"
  by (rule injI) (simp add: word_unat_eq_iff)

text \<open>Any order in which the runtime lists the keys gives the same sorted list.\<close>

lemma sortedKeys_of_order:
  assumes "distinct ks" and "set ks = dom opts"
  shows "sort (map unat ks) = sortedKeys opts"
  by (rule sorted_distinct_set_unique)
    (use assms in \<open>simp_all add: sortedKeys_def distinct_map inj_on_subset [OF inj_unat]\<close>)

lemma set_sortedKeys: "set (sortedKeys opts) = unat ` dom opts"
  by (simp add: sortedKeys_def)

lemma distinct_sortedKeys: "distinct (sortedKeys opts)"
  by (simp add: sortedKeys_def distinct_map inj_on_subset [OF inj_unat])

lemma sorted_sortedKeys: "sorted (sortedKeys opts)"
  by (simp add: sortedKeys_def)

text \<open>The keys are the codes from 0 to 255 that occur, in this order.\<close>

lemma sortedKeys_eq: "sortedKeys opts = filter (\<lambda>c. opts (of_nat c) \<noteq> None) [0..<256]"
proof (rule sorted_distinct_set_unique)
  have "c < 256 \<Longrightarrow> unat (of_nat c :: OptionCode) = c" for c by (simp add: unat_of_nat take_bit_eq_mod)
  then show "set (sortedKeys opts) = set (filter (\<lambda>c. opts (of_nat c) \<noteq> None) [0..<256])"
    by (force simp: set_sortedKeys unat_byte_less image_iff)
qed (simp_all add: sorted_sortedKeys distinct_sortedKeys sorted_wrt_filter)

lemma items_of_options_sorted: "items_of_options opts = concat (map (items_of_option opts) (sortedKeys opts))"
  by (simp add: items_of_options_def sortedKeys_eq)

lemma of_nat_sortedKeys: "c \<in> set (sortedKeys opts) \<Longrightarrow> (of_nat c :: OptionCode) \<in> dom opts"
  by (auto simp: set_sortedKeys)

section \<open>What Marshal writes\<close>

lemma marshal_loop_Nil [simp]: "marshal_loop code [] b = Some b"
  by (simp add: marshal_loop.simps)

lemma marshal_loop_step:
  "code \<noteq> End \<Longrightarrow> code \<noteq> Pad \<Longrightarrow> d \<noteq> [] \<Longrightarrow>
    marshal_loop code d b =
      marshal_loop code (drop 255 d) (b\<lparr>data := data b @ render_item (OptItem code (take 255 d))\<rparr>)"
  by (subst marshal_loop.simps) (auto simp: Let_def write_simps min_def)

lemma marshal_loop_returns:
  "code \<noteq> End \<Longrightarrow> code \<noteq> Pad \<Longrightarrow>
    marshal_loop code d b =
      Some (b\<lparr>data := data b @ concat (map render_item (map (OptItem code) (chunks d)))\<rparr>)"
proof (induction d arbitrary: b rule: chunks.induct)
  case (1 d)
  show ?case
  proof (cases "d = []")
    case False
    with "1" show ?thesis
      by (simp add: marshal_loop_step chunks.simps [of d])
  qed (simp add: chunks.simps)
qed

text \<open>For \<open>Pad\<close> and \<open>End\<close> with data the loop does not end: whatever it returned would be absurd.\<close>

lemma marshal_loop_diverges:
  assumes "code = End \<or> code = Pad" and "d \<noteq> []"
  shows "marshal_loop code d b = None"
proof (rule ccontr)
  assume "marshal_loop code d b \<noteq> None"
  then obtain r where ret: "marshal_loop code d b = Some r" by auto
  have "\<not> ((code = End \<or> code = Pad) \<and> d \<noteq> [])"
    by (rule marshal_loop.raw_induct
        [where P = "\<lambda>code d b r. \<not> ((code = End \<or> code = Pad) \<and> d \<noteq> [])", OF _ ret])
      (auto simp: Let_def split: if_splits)
  with assms show False by blast
qed

lemma marshal_keys_returns:
  assumes "\<And>c. c \<in> set cs \<Longrightarrow> of_nat c \<in> {End, Pad} \<Longrightarrow> bytes_of (opts (of_nat c)) = []"
  shows "marshal_keys opts cs b =
    Some (b\<lparr>data := data b @ concat (map render_item (concat (map (items_of_option opts) cs)))\<rparr>)"
  using assms
proof (induction cs arbitrary: b)
  case (Cons c cs)
  let ?d = "bytes_of (opts (of_nat c))"
  have "marshal_loop (of_nat c) ?d b =
      Some (b\<lparr>data := data b @ concat (map render_item (items_of_option opts c))\<rparr>)"
  proof (cases "(of_nat c :: OptionCode) \<in> {End, Pad}")
    case True
    with Cons.prems [of c] show ?thesis by (simp add: items_of_option_def chunks.simps)
  next
    case False
    then show ?thesis by (simp add: marshal_loop_returns items_of_option_def)
  qed
  with Cons show ?case by (simp add: Let_def)
qed simp

lemma marshal_keys_diverges:
  assumes "c \<in> set cs" and "of_nat c \<in> {End, Pad}" and "bytes_of (opts (of_nat c)) \<noteq> []"
  shows "marshal_keys opts cs b = None"
  using assms
proof (induction cs arbitrary: b)
  case (Cons k cs)
  show ?case
  proof (cases "k = c")
    case True
    with Cons.prems show ?thesis by (auto simp: Let_def marshal_loop_diverges)
  next
    case False
    with Cons show ?thesis by (auto simp: Let_def split: option.split)
  qed
qed simp

lemma Options_Marshal_returns:
  assumes "bytes_of (opts Pad) = []" and "bytes_of (opts End) = []"
  shows "Options_Marshal opts b = Returns (b\<lparr>data := data b
      @ concat (map render_item (items_of_options opts)) @ (if opts End = None then [End] else [])\<rparr>)"
proof -
  have "marshal_keys opts (sortedKeys opts) b =
      Some (b\<lparr>data := data b @ concat (map render_item (items_of_options opts))\<rparr>)"
    unfolding items_of_options_sorted by (rule marshal_keys_returns) (use assms in auto)
  then show ?thesis by (simp add: Options_Marshal_def write_simps)
qed

lemma Options_Marshal_diverges:
  assumes "c \<in> {Pad, End}" and "bytes_of (opts c) \<noteq> []"
  shows "Options_Marshal opts b = Diverges"
proof -
  have "unat c \<in> set (sortedKeys opts)"
    using assms(2) by (cases "opts c") (auto simp: set_sortedKeys)
  then have "marshal_keys opts (sortedKeys opts) b = None"
    by (rule marshal_keys_diverges) (use assms in auto)
  then show ?thesis by (simp add: Options_Marshal_def)
qed

lemma Options_Marshal_wire:
  "marshalable opts \<Longrightarrow>
    Options_Marshal opts b = Returns (b\<lparr>data := data b @ wire (items_of_options opts) 0\<rparr>)"
  by (simp add: Options_Marshal_returns marshalable_def wire_def)

section \<open>What Unmarshal reads\<close>

lemma apply_item_AddRaw: "apply_item (OptItem c d) opts = (if d = [] then opts else AddRaw c d opts)"
  by (simp add: AddRaw_def split: option.split)

lemma fold_apply_item:
  "fold apply_item items opts k = (let d = concat (map (item_data k) items) in
    if d = [] then opts k else Some (bytes_of (opts k) @ d))"
proof (induction items arbitrary: opts)
  case (Cons i items)
  then show ?case by (cases i) (auto simp: Let_def split: option.split)
qed simp

lemma options_of_items_fold: "options_of_items items = fold apply_item items Map.empty"
  by (rule ext) (simp add: options_of_items_def fold_apply_item)

declare apply_item.simps(2) [simp del]
declare apply_item_AddRaw [simp]

lemma unmarshal_loop_unfold:
  "unmarshal_loop opts buf = (case data buf of
     [] \<Rightarrow> ((opts, RanOut), buf)
   | c # xs \<Rightarrow>
       if c = Pad then unmarshal_loop opts (advance 1 buf)
       else if c = End then ((opts, SawEnd), advance 1 buf)
       else (case xs of
           [] \<Rightarrow> ((opts, Returned ErrUnexpectedEOF), advance 1 buf)
         | n # ys \<Rightarrow>
             if n = 0 then unmarshal_loop opts (advance 2 buf)
             else if length ys < unat n then ((opts, Returned ErrUnexpectedEOF), advance 2 buf)
             else unmarshal_loop (AddRaw c (take (unat n) ys) opts) (advance (2 + unat n) buf)))"
proof (cases "data buf")
  case Nil
  then show ?thesis by (simp add: unmarshal_loop.simps [of opts buf] Has_def)
next
  case (Cons c xs)
  note c = this
  show ?thesis
  proof (cases xs)
    case Nil
    with c show ?thesis
      by (simp add: unmarshal_loop.simps [of opts buf] Has_def run_Read8)
  next
    case (Cons n ys)
    with c show ?thesis
      by (simp add: unmarshal_loop.simps [of opts buf] Has_def run_Read8 run_Consume Let_def
          unat_eq_0 not_le numeral_2_eq_2)
  qed
qed

lemma padding_loop_unfold:
  "padding_loop buf = (case data buf of
     [] \<Rightarrow> (None, buf)
   | c # xs \<Rightarrow> if c = Pad then padding_loop (advance 1 buf)
       else (Some ErrInvalidOptions, advance 1 buf))"
  by (subst padding_loop.simps) (auto simp: run_Read8 Has_def split: list.split)

lemma unat_of_nat_byte [simp]: "n \<le> 255 \<Longrightarrow> unat (of_nat n :: byte) = n"
  by (simp add: unat_of_nat take_bit_eq_mod)

lemma of_nat_byte_eq_0 [simp]: "n \<le> 255 \<Longrightarrow> (of_nat n :: byte) = 0 \<longleftrightarrow> n = 0"
  by (metis unat_of_nat_byte unat_eq_0)

lemma advance_cong: "data l = xs \<Longrightarrow> byteCount l = c \<Longrightarrow> order l = ord \<Longrightarrow> err l = e \<Longrightarrow>
    l = \<lparr>data = xs, byteCount = c, order = ord, err = e\<rparr>"
  by (cases l) simp

text \<open>The first loop follows the items of the input.\<close>

lemma unmarshal_loop_items:
  "list_all valid_item items \<Longrightarrow> data buf = concat (map render_item items) @ rest \<Longrightarrow>
    unmarshal_loop opts buf =
      unmarshal_loop (fold apply_item items opts)
        (advance (length (concat (map render_item items))) buf)"
proof (induction items arbitrary: opts buf)
  case (Cons i items)
  have v: "valid_item i" "list_all valid_item items" using Cons.prems(1) by auto
  have "unmarshal_loop opts buf =
      unmarshal_loop (apply_item i opts) (advance (length (render_item i)) buf)"
    using v(1) Cons.prems(2)
    by (cases i) (simp_all add: unmarshal_loop_unfold [of opts buf] numeral_2_eq_2)
  also have "\<dots> = unmarshal_loop (fold apply_item (i # items) opts)
      (advance (length (concat (map render_item (i # items)))) buf)"
    using Cons.IH [OF v(2), of "advance (length (render_item i)) buf"] Cons.prems(2)
    by simp
  finally show ?case .
qed simp

lemma padding_loop_pads:
  "data buf = replicate k Pad \<Longrightarrow> padding_loop buf = (None, advance k buf)"
  by (induction k arbitrary: buf) (simp_all add: padding_loop_unfold [of buf for buf])

lemma Options_Unmarshal_wire:
  assumes "list_all valid_item items" and "data buf = wire items k"
  shows "run_state Options_Unmarshal buf =
    ((options_of_items items, None), advance (length (data buf)) buf)"
proof -
  let ?n = "length (concat (map render_item items))"
  have "unmarshal_loop Map.empty buf =
      unmarshal_loop (options_of_items items) (advance ?n buf)"
    using unmarshal_loop_items [OF assms(1), of buf "[End] @ replicate k Pad" Map.empty] assms(2)
    by (simp add: wire_def options_of_items_fold)
  also have "\<dots> = ((options_of_items items, SawEnd), advance (?n + 1) buf)"
    using assms(2) by (simp add: unmarshal_loop_unfold [of _ "advance ?n buf"] wire_def)
  finally have loop: "unmarshal_loop Map.empty buf = \<dots>" .
  have "data (advance (?n + 1) buf) = replicate k Pad"
    using assms(2) by (simp add: wire_def)
  then have "padding_loop (advance (?n + 1) buf) = (None, advance (length (data buf)) buf)"
    using assms(2) by (simp add: padding_loop_pads wire_def)
  with loop show ?thesis by (simp add: Options_Unmarshal_def)
qed

lemma unmarshal_loop_sound:
  "unmarshal_loop opts buf = ((opts', SawEnd), buf') \<Longrightarrow>
    \<exists>items. list_all valid_item items \<and> opts' = fold apply_item items opts \<and>
      data buf = concat (map render_item items) @ End # data buf'"
proof (induction "length (data buf)" arbitrary: opts buf rule: less_induct)
  case less
  obtain c xs where c: "data buf = c # xs"
    using less.prems by (cases "data buf") (auto simp: unmarshal_loop_unfold [of opts buf])
  consider "c = Pad" | "c = End" | "c \<noteq> Pad" "c \<noteq> End" by blast
  then show ?case
  proof cases
    case 1
    with less.prems c have "unmarshal_loop opts (advance 1 buf) = ((opts', SawEnd), buf')"
      by (simp add: unmarshal_loop_unfold [of opts buf])
    from less.hyps [OF _ this] c 1 obtain items where
      "list_all valid_item items \<and> opts' = fold apply_item items opts \<and>
        xs = concat (map render_item items) @ End # data buf'" by auto
    with c 1 show ?thesis by (intro exI [of _ "PadItem # items"]) simp
  next
    case 2
    with less.prems c show ?thesis
      by (intro exI [of _ "[]"]) (auto simp: unmarshal_loop_unfold [of opts buf])
  next
    case 3
    then obtain n ys where xs: "xs = n # ys"
      using less.prems c by (cases xs) (auto simp: unmarshal_loop_unfold [of opts buf])
    have n: "unat n \<le> length ys"
      using less.prems c xs 3
      by (cases "n = 0") (auto simp: unmarshal_loop_unfold [of opts buf] split: if_splits)
    let ?d = "take (unat n) ys" and ?b = "advance (2 + unat n) buf"
    have b: "data ?b = drop (unat n) ys" using c xs by simp
    have "unmarshal_loop (apply_item (OptItem c ?d) opts) ?b = ((opts', SawEnd), buf')"
      using less.prems c xs 3 n
      by (cases "n = 0") (auto simp: unmarshal_loop_unfold [of opts buf] unat_eq_0)
    moreover have "length (data ?b) < length (data buf)" using b c xs by simp
    ultimately obtain items where
      items: "list_all valid_item items" "opts' = fold apply_item items (apply_item (OptItem c ?d) opts)"
        "drop (unat n) ys = concat (map render_item items) @ End # data buf'"
      using less.hyps [of ?b] b by metis
    have "valid_item (OptItem c ?d)" and "render_item (OptItem c ?d) @ drop (unat n) ys = c # n # ys"
      using 3 n unat_byte_le [of n] by (auto simp: min_def)
    with items c xs show ?thesis
      by (intro exI [of _ "OptItem c ?d # items"]) simp
  qed
qed

lemma padding_loop_sound:
  "padding_loop buf = (None, buf') \<Longrightarrow> data buf = replicate (length (data buf)) Pad"
proof (induction "length (data buf)" arbitrary: buf rule: less_induct)
  case less
  show ?case
  proof (cases "data buf")
    case (Cons c xs)
    with less.prems have "c = Pad" "padding_loop (advance 1 buf) = (None, buf')"
      by (auto simp: padding_loop_unfold [of buf] split: if_splits)
    with less.hyps [of "advance 1 buf"] Cons show ?thesis by simp
  qed simp
qed

lemma Options_Unmarshal_sound:
  assumes "run_state Options_Unmarshal buf = ((opts, None), buf')"
  obtains items k where "list_all valid_item items" and "data buf = wire items k"
    and "opts = options_of_items items"
proof -
  obtain buf1 where loop: "unmarshal_loop Map.empty buf = ((opts, SawEnd), buf1)"
    and pad: "padding_loop buf1 = (None, buf')"
    using assms by (auto simp: Options_Unmarshal_def split: prod.splits loop_exit.splits)
  from unmarshal_loop_sound [OF loop] obtain items where
    "list_all valid_item items \<and> opts = fold apply_item items Map.empty \<and>
      data buf = concat (map render_item items) @ End # data buf1" by blast
  with that [of items "length (data buf1)"] padding_loop_sound [OF pad] show ?thesis
    by (simp add: wire_def options_of_items_fold)
qed

section \<open>Round trip\<close>

lemma AddRaw_AddRaw: "AddRaw c y (AddRaw c x opts) = AddRaw c (x @ y) opts"
  by (simp add: AddRaw_def)

lemma concat_chunks: "concat (chunks d) = d"
  by (induction d rule: chunks.induct) (subst chunks.simps, simp)

lemma chunks_sizes: "x \<in> set (chunks d) \<Longrightarrow> x \<noteq> [] \<and> length x \<le> 255"
proof (induction d rule: chunks.induct)
  case (1 d)
  then show ?case by (cases "d = []") (auto simp: chunks.simps [of d])
qed

lemma fold_apply_chunks:
  "d \<noteq> [] \<Longrightarrow> fold apply_item (map (OptItem c) (chunks d)) opts = AddRaw c d opts"
proof (induction d arbitrary: opts rule: chunks.induct)
  case (1 d)
  show ?case
  proof (cases "drop 255 d = []")
    case True
    with "1.prems" show ?thesis by (simp add: chunks.simps [of d])
  next
    case False
    with "1.IH" "1.prems" show ?thesis
      by (simp add: chunks.simps [of d] AddRaw_AddRaw)
  qed
qed

lemma fold_items_of_option:
  "fold apply_item (items_of_option opts c) acc =
    (if bytes_of (opts (of_nat c)) = [] then acc
     else AddRaw (of_nat c) (bytes_of (opts (of_nat c))) acc)"
  by (simp add: items_of_option_def fold_apply_chunks)

lemma fold_items_of_keys:
  "distinct cs \<Longrightarrow> (\<And>c. c \<in> set cs \<Longrightarrow> c < 256) \<Longrightarrow>
    fold apply_item (concat (map (items_of_option opts) cs)) acc k =
      (if unat k \<in> set cs \<and> bytes_of (opts k) \<noteq> [] then Some (bytes_of (acc k) @ bytes_of (opts k))
       else acc k)"
proof (induction cs arbitrary: acc)
  case (Cons c cs)
  have c: "unat (of_nat c :: OptionCode) = c" using Cons.prems(2) [of c] by simp
  have k: "k = of_nat c \<longleftrightarrow> unat k = c" using c by auto
  show ?case
    using Cons by (auto simp: fold_items_of_option AddRaw_apply k c)
qed simp

lemma options_of_items_of_options: "options_of_items (items_of_options opts) = drop_empty opts"
proof
  fix k
  have "c \<in> set (sortedKeys opts) \<Longrightarrow> c < 256" for c
    by (auto simp: set_sortedKeys unat_byte_less)
  from fold_items_of_keys [OF distinct_sortedKeys this]
  show "options_of_items (items_of_options opts) k = drop_empty opts k"
    by (cases "opts k") (auto simp: options_of_items_fold items_of_options_sorted set_sortedKeys
        drop_empty_def image_iff word_unat_eq_iff)
qed

lemma items_of_options_valid: "marshalable opts \<Longrightarrow> list_all valid_item (items_of_options opts)"
  unfolding list_all_iff marshalable_def
  by (auto simp: items_of_options_sorted items_of_option_def dest: chunks_sizes)

lemma Options_roundtrip:
  assumes "marshalable opts" and "data buf = wire (items_of_options opts) 0 @ replicate k Pad"
  shows "run_state Options_Unmarshal buf = ((drop_empty opts, None), advance (length (data buf)) buf)"
proof -
  have "data buf = wire (items_of_options opts) k"
    using assms(2) by (simp add: wire_def)
  from Options_Unmarshal_wire [OF items_of_options_valid [OF assms(1)] this]
  show ?thesis by (simp add: options_of_items_of_options)
qed

text \<open>The size of encoded options that need no splitting.\<close>

lemma length_wire_items:
  assumes "\<And>c d. opts c = Some d \<Longrightarrow> d \<noteq> [] \<and> length d \<le> 255"
  shows "length (wire (items_of_options opts) k) = (\<Sum>c \<in> dom opts. 2 + length (bytes_of (opts c))) + 1 + k"
proof -
  have one: "length (concat (map render_item (items_of_option opts n))) = 2 + length (bytes_of (opts (of_nat n)))"
    if "n \<in> set (sortedKeys opts)" for n
  proof -
    from of_nat_sortedKeys [OF that] obtain d where d: "opts (of_nat n) = Some d" by auto
    then have "chunks d = [d]" using assms [OF d] by (simp add: chunks.simps)
    with d show ?thesis by (simp add: items_of_option_def)
  qed
  have "length (concat (map render_item (concat (map (items_of_option opts) ks)))) =
      (\<Sum>n \<leftarrow> ks. length (concat (map render_item (items_of_option opts n))))" for ks
    by (induction ks) simp_all
  then have "length (concat (map render_item (items_of_options opts))) =
      (\<Sum>n \<leftarrow> sortedKeys opts. length (concat (map render_item (items_of_option opts n))))"
    by (simp only: items_of_options_sorted)
  also have "\<dots> = (\<Sum>n \<leftarrow> sortedKeys opts. 2 + length (bytes_of (opts (of_nat n))))"
    using one by (intro arg_cong [where f = sum_list] map_cong) auto
  also have "\<dots> = (\<Sum>n \<in> unat ` dom opts. 2 + length (bytes_of (opts (of_nat n))))"
    by (simp add: sum_list_distinct_conv_sum_set distinct_sortedKeys set_sortedKeys)
  also have "\<dots> = (\<Sum>c \<in> dom opts. 2 + length (bytes_of (opts c)))"
    by (subst sum.reindex) (simp_all add: inj_on_subset [OF inj_unat])
  finally show ?thesis by (simp add: wire_def)
qed

section \<open>Errors of Unmarshal\<close>

text \<open>Every read of the two loops is guarded: none of them records an error in the lexer.\<close>

fun exit_ok :: "loop_exit \<Rightarrow> bool" where
  "exit_ok (Returned e) \<longleftrightarrow> e = ErrUnexpectedEOF"
| "exit_ok SawEnd \<longleftrightarrow> True"
| "exit_ok RanOut \<longleftrightarrow> True"

lemma unmarshal_loop_exit:
  "unmarshal_loop opts buf = ((opts', x), buf') \<Longrightarrow> err buf' = err buf \<and> exit_ok x"
proof (induction "length (data buf)" arbitrary: opts buf rule: less_induct)
  case less
  have step: "err buf' = err buf \<and> exit_ok x"
    if "unmarshal_loop o' (advance m buf) = ((opts', x), buf')" "0 < m" "data buf \<noteq> []" for o' m
    using less.hyps [of "advance m buf" o'] that by auto
  show ?case
    using less.prems step
    by (auto simp: unmarshal_loop_unfold [of opts buf] split: list.splits if_splits)
qed

lemma padding_loop_exit:
  "padding_loop buf = (r, buf') \<Longrightarrow> err buf' = err buf \<and> (r = None \<or> r = Some ErrInvalidOptions)"
proof (induction "length (data buf)" arbitrary: buf rule: less_induct)
  case less
  have step: "err buf' = err buf \<and> (r = None \<or> r = Some ErrInvalidOptions)"
    if "padding_loop (advance 1 buf) = (r, buf')" "data buf \<noteq> []"
    using less.hyps [of "advance 1 buf"] that by auto
  show ?case
    using less.prems step
    by (auto simp: padding_loop_unfold [of buf] split: list.splits if_splits)
qed

lemma Options_Unmarshal_errors:
  assumes "run_state Options_Unmarshal buf = ((opts, e), buf')"
  shows "err buf' = err buf \<and> e \<in> {None, Some ErrUnexpectedEOF, Some ErrInvalidOptions}"
proof -
  obtain x buf1 where loop: "unmarshal_loop Map.empty buf = ((opts, x), buf1)"
    using assms by (auto simp: Options_Unmarshal_def split: prod.splits loop_exit.splits)
  note x = unmarshal_loop_exit [OF loop]
  show ?thesis
  proof (cases x)
    case SawEnd
    with assms loop obtain "padding_loop buf1 = (e, buf')"
      by (auto simp: Options_Unmarshal_def split: prod.splits)
    from padding_loop_exit [OF this] x show ?thesis by auto
  qed (use assms loop x in \<open>auto simp: Options_Unmarshal_def\<close>)
qed

section \<open>Properties\<close>

text \<open>
  The order in which the runtime lists the keys of the map does not matter: any listing of
  them without repetition, sorted, is what \<open>sortedKeys\<close> returns, and that is strictly
  increasing.
\<close>

lemma sortedKeys_any_order:
  assumes "distinct ks" and "set ks = dom opts"
  shows "sort (map unat ks) = sortedKeys opts \<and> sorted_wrt (<) (sortedKeys opts)"
  using sortedKeys_of_order [OF assms] sorted_sortedKeys [of opts] distinct_sortedKeys [of opts]
  by (simp add: strict_sorted_iff)

text \<open>
  C21. How \<open>Marshal\<close> ends: it never panics; it runs forever exactly when \<open>Pad\<close> or \<open>End\<close> is a key
  with data, for then the inner loop writes the code again and again; otherwise it appends the
  options in the order of their codes, split into pieces of at most 255 bytes, and an \<open>End\<close> marker
  unless \<open>End\<close> is a key.
\<close>

theorem Options_Marshal_outcome:
  "Options_Marshal opts b =
    (if bytes_of (opts Pad) = [] \<and> bytes_of (opts End) = []
     then Returns (b\<lparr>data := data b @ concat (map render_item (items_of_options opts))
       @ (if opts End = None then [End] else [])\<rparr>)
     else Diverges)"
  using Options_Marshal_diverges [of Pad opts b] Options_Marshal_diverges [of End opts b]
  by (auto simp: Options_Marshal_returns)

text \<open>
  What \<open>Marshal\<close> appends is the wire format: the options in increasing order of their codes,
  in pieces of at most 255 bytes (RFC 3396), followed by \<open>End\<close>. The rest of the lexer is
  untouched.
\<close>

lemma Options_Marshal_writes_wire:
  assumes "marshalable opts"
  shows "Options_Marshal opts b = Returns (b\<lparr>data := data b @ wire (items_of_options opts) 0\<rparr>) \<and>
    list_all valid_item (items_of_options opts)"
  using assms by (simp add: Options_Marshal_wire items_of_options_valid)

text \<open>
  C20. \<open>Unmarshal\<close> accepts exactly the wire format, and gives the options it denotes: a sequence of
  pad bytes and options with the announced number of data bytes, then \<open>End\<close>, then only
  padding; the data of a repeated option is concatenated and options of length 0 leave no trace.
\<close>

theorem Options_Unmarshal_accepts_wire:
  "(\<exists>buf'. run_state Options_Unmarshal buf = ((opts, None), buf')) \<longleftrightarrow>
    (\<exists>items k. list_all valid_item items \<and> data buf = wire items k \<and> opts = options_of_items items)"
  using Options_Unmarshal_wire [of _ buf] Options_Unmarshal_sound [of buf opts] by metis



text \<open>
  \<open>Unmarshal\<close> fails with \<open>io.ErrUnexpectedEOF\<close> or \<open>ErrInvalidOptions\<close> only, and it checks the
  length before every read, so it never leaves a read error in the lexer.
\<close>

lemma Options_Unmarshal_error_kinds:
  "case run_state Options_Unmarshal buf of ((opts, e), buf') \<Rightarrow>
    err buf' = err buf \<and> (e = None \<or> e = Some ErrUnexpectedEOF \<or> e = Some ErrInvalidOptions)"
  using Options_Unmarshal_errors [of buf] by (auto split: prod.split)

end
