(* ===== verification/Packet.thy ===== *)
theory Packet
  imports Options
begin

text \<open>
  \<^verbatim>\<open>packet.go\<close>: the DHCP packet, its encoding and its decoding. \<open>[n]byte\<close> fields are byte lists
  of that length; a packet whose array fields have their length is \<open>wf_packet\<close>, which holds of
  every packet the code can build.
\<close>

section \<open>The packet\<close>

definition minPacketLen :: nat where "minPacketLen = 236"

definition chaddrLen :: nat where [simp]: "chaddrLen = 16"

definition flagBroadcast :: u16 where "flagBroadcast = push_bit 15 1"

definition IPv4len :: nat where [simp]: "IPv4len = 4"

definition magicCookie :: "byte list" where "magicCookie = [99, 130, 83, 99]"

record Packet =
  Op :: OpCode
  HType :: byte
  Hops :: byte
  TransactionID :: "byte list"
  Secs :: u16
  Broadcast :: bool
  CIAddr :: net_IP
  YIAddr :: net_IP
  SIAddr :: net_IP
  GIAddr :: net_IP
  CHAddr :: "byte list"
  ServerName :: "byte list"
  BootFile :: "byte list"
  Opts :: Options

text \<open>The zero value \<open>Packet{}\<close>.\<close>

definition zero_Packet :: Packet where
  "zero_Packet = \<lparr>Op = 0, HType = 0, Hops = 0, TransactionID = zeros 4, Secs = 0,
     Broadcast = False, CIAddr = None, YIAddr = None, SIAddr = None, GIAddr = None,
     CHAddr = [], ServerName = [], BootFile = [], Opts = Map.empty\<rparr>"

definition NewPacket :: "OpCode \<Rightarrow> Packet" where
  "NewPacket op = zero_Packet\<lparr>Op := op, HType := 1, Opts := Map.empty\<rparr>"

definition wf_packet :: "Packet \<Rightarrow> bool" where
  "wf_packet p \<longleftrightarrow> length (TransactionID p) = 4"

section \<open>Encoding\<close>

text \<open>\<open>ip[:net.IPv4len]\<close> is bounded by the capacity of the address.\<close>

definition writeIP :: "byte list \<Rightarrow> Lexer \<Rightarrow> net_IP \<Rightarrow> Lexer outcome" where
  "writeIP spare b ip = (case ip of
     None \<Rightarrow> Returns (WriteBytes (zeros IPv4len) b)
   | Some ip \<Rightarrow> obind (slice_to spare ip IPv4len) (\<lambda>ip4. Returns (WriteBytes ip4 b)))"

text \<open>What the arrays of the four addresses of a packet hold beyond their lengths.\<close>

record addr_spares =
  ci_spare :: "byte list"
  yi_spare :: "byte list"
  si_spare :: "byte list"
  gi_spare :: "byte list"

text \<open>
  The buffer made with capacity \<open>minPacketLen\<close> is empty. \<open>copy(b.WriteN(chaddrLen), p.CHAddr)\<close>
  fills the sixteen appended bytes. The assignments of the terminating zero panic when the
  name does not leave room for it.
\<close>

definition Packet_MarshalBinary_cap :: "addr_spares \<Rightarrow> Packet \<Rightarrow> (go_error + byte list) outcome" where
  "Packet_MarshalBinary_cap sp p =
    (let b = NewBigEndianBuffer [];
         b = Write8 (Op p) b;
         b = Write8 (HType p) b;
         b = Write8 (of_nat (length (CHAddr p))) b;
         b = Write8 (Hops p) b;
         b = WriteBytes (TransactionID p) b;
         b = Write16 (Secs p) b;
         flags = (if Broadcast p then 0 OR flagBroadcast else 0);
         b = Write16 flags b
     in obind (writeIP (ci_spare sp) b (CIAddr p)) (\<lambda>b.
        obind (writeIP (yi_spare sp) b (YIAddr p)) (\<lambda>b.
        obind (writeIP (si_spare sp) b (SIAddr p)) (\<lambda>b.
        obind (writeIP (gi_spare sp) b (GIAddr p)) (\<lambda>b.
        let b = fill (CHAddr p) chaddrLen (WriteN chaddrLen b);
            sname = go_copy (zeros 64) (ServerName p) in
        obind (set_index sname (length (ServerName p)) 0) (\<lambda>sname.
        let b = WriteBytes sname b;
            file = go_copy (zeros 128) (BootFile p) in
        obind (set_index file (length (BootFile p)) 0) (\<lambda>file.
        let b = WriteBytes file b;
            b = WriteBytes magicCookie b in
        obind (Options_Marshal (Opts p) b) (\<lambda>b. Returns (Inr (data b))))))))))"

text \<open>
  Addresses without spare capacity. The capacity matters only for an address of fewer than four bytes
  (\<open>Packet_MarshalBinary_cap_eq\<close>), of which the repository makes none: it sets addresses to nil, to results of \<open>To4\<close>
  and to four bytes that were read.
\<close>

definition Packet_MarshalBinary :: "Packet \<Rightarrow> (go_error + byte list) outcome" where
  "Packet_MarshalBinary p = Packet_MarshalBinary_cap \<lparr>ci_spare = [], yi_spare = [], si_spare = [], gi_spare = []\<rparr> p"

section \<open>Decoding\<close>

text \<open>
  A zero-terminated name in a fixed field: everything before the first zero byte, or the whole
  field.
\<close>

definition cstring :: "nat \<Rightarrow> byte list \<Rightarrow> byte list" where
  "cstring n field = (case index_of 0 field of
     None \<Rightarrow> take n field
   | Some len \<Rightarrow> take len field)"

text \<open>
  The fixed part of the packet, up to and including the magic cookie, read into the receiver.
  \<open>Broadcast\<close> is set but never cleared.
\<close>

definition unmarshal_header :: "Packet \<Rightarrow> (Packet \<times> byte list) reader" where
  "unmarshal_header p = do {
     op \<leftarrow> Read8;
     htype \<leftarrow> Read8;
     hlen \<leftarrow> Read8;
     hops \<leftarrow> Read8;
     tid \<leftarrow> ReadBytes (TransactionID p);
     secs \<leftarrow> Read16;
     flags \<leftarrow> Read16;
     let bc = (if flags AND flagBroadcast \<noteq> 0 then True else Broadcast p);
     ciaddr \<leftarrow> ReadBytes (zeros IPv4len);
     yiaddr \<leftarrow> ReadBytes (zeros IPv4len);
     siaddr \<leftarrow> ReadBytes (zeros IPv4len);
     giaddr \<leftarrow> ReadBytes (zeros IPv4len);
     let hlen = (if unat hlen > chaddrLen then chaddrLen else unat hlen);
     chaddr \<leftarrow> ReadBytes (zeros chaddrLen);
     sname \<leftarrow> ReadBytes (zeros 64);
     file \<leftarrow> ReadBytes (zeros 128);
     cookie \<leftarrow> ReadBytes (zeros 4);
     State_Monad.return
       (p\<lparr>Op := op, HType := htype, Hops := hops, TransactionID := tid, Secs := secs,
          Broadcast := bc, CIAddr := Some ciaddr, YIAddr := Some yiaddr, SIAddr := Some siaddr,
          GIAddr := Some giaddr, CHAddr := take hlen chaddr, ServerName := cstring 64 sname,
          BootFile := cstring 128 file\<rparr>, cookie) }"

definition Packet_UnmarshalBinary :: "byte list \<Rightarrow> Packet \<Rightarrow> Packet \<times> go_error option" where
  "Packet_UnmarshalBinary q p = fst (run_state
     (do {
        (p, cookie) \<leftarrow> unmarshal_header p;
        if cookie \<noteq> magicCookie then State_Monad.return (p, Some (BadMagicCookie cookie))
        else do {
          (opts, e) \<leftarrow> Options_Unmarshal;
          let p = p\<lparr>Opts := opts\<rparr>;
          b \<leftarrow> State_Monad.get;
          State_Monad.return (p, if e \<noteq> None then e else FinError b) } })
     (NewBigEndianBuffer q))"

definition ParsePacket :: "byte list \<Rightarrow> go_error + Packet" where
  "ParsePacket q = (case Packet_UnmarshalBinary q zero_Packet of
     (pkt, Some e) \<Rightarrow> Inl e
   | (pkt, None) \<Rightarrow> Inr pkt)"

section \<open>The packet layout as a reference\<close>

text \<open>RFC 2131, Figure 1: the fields at their offsets.\<close>

definition ip4_field :: "net_IP \<Rightarrow> byte list" where
  "ip4_field ip = (case ip of None \<Rightarrow> zeros 4 | Some ip \<Rightarrow> take 4 ip)"

definition packet_header :: "Packet \<Rightarrow> byte list" where
  "packet_header p = [Op p, HType p, of_nat (length (CHAddr p)), Hops p] @ TransactionID p
     @ PutUint16 BigEndian (Secs p) @ PutUint16 BigEndian (if Broadcast p then flagBroadcast else 0)
     @ ip4_field (CIAddr p) @ ip4_field (YIAddr p) @ ip4_field (SIAddr p) @ ip4_field (GIAddr p)
     @ go_copy (zeros 16) (CHAddr p) @ go_copy (zeros 64) (ServerName p)
     @ go_copy (zeros 128) (BootFile p) @ magicCookie"

definition decode_header :: "byte list \<Rightarrow> Packet" where
  "decode_header q = \<lparr>Op = q ! 0, HType = q ! 1, Hops = q ! 3, TransactionID = take 4 (drop 4 q),
     Secs = Uint16_of BigEndian (take 2 (drop 8 q)),
     Broadcast = (Uint16_of BigEndian (take 2 (drop 10 q)) AND flagBroadcast \<noteq> 0),
     CIAddr = Some (take 4 (drop 12 q)), YIAddr = Some (take 4 (drop 16 q)),
     SIAddr = Some (take 4 (drop 20 q)), GIAddr = Some (take 4 (drop 24 q)),
     CHAddr = take (min (unat (q ! 2)) 16) (drop 28 q),
     ServerName = cstring 64 (take 64 (drop 44 q)), BootFile = cstring 128 (take 128 (drop 108 q)),
     Opts = Map.empty\<rparr>"

definition ip_writable :: "net_IP \<Rightarrow> bool" where
  "ip_writable ip \<longleftrightarrow> (case ip of None \<Rightarrow> True | Some ip \<Rightarrow> 4 \<le> length ip)"

text \<open>The packets whose fixed part can be encoded: every other one makes \<open>MarshalBinary\<close> panic.\<close>

definition header_writable :: "Packet \<Rightarrow> bool" where
  "header_writable p \<longleftrightarrow> ip_writable (CIAddr p) \<and> ip_writable (YIAddr p) \<and> ip_writable (SIAddr p)
     \<and> ip_writable (GIAddr p) \<and> length (ServerName p) < 64 \<and> length (BootFile p) < 128"

text \<open>What a decoder can give back of a packet: addresses as four bytes, no empty options.\<close>

definition canonical :: "Packet \<Rightarrow> Packet" where
  "canonical p = p\<lparr>CIAddr := Some (ip4_field (CIAddr p)), YIAddr := Some (ip4_field (YIAddr p)),
     SIAddr := Some (ip4_field (SIAddr p)), GIAddr := Some (ip4_field (GIAddr p)),
     Opts := drop_empty (Opts p)\<rparr>"

text \<open>The packets that survive the round trip up to \<open>canonical\<close>.\<close>

definition encodable :: "Packet \<Rightarrow> bool" where
  "encodable p \<longleftrightarrow> wf_packet p \<and> header_writable p \<and> length (CHAddr p) \<le> 16
     \<and> 0 \<notin> set (ServerName p) \<and> 0 \<notin> set (BootFile p) \<and> marshalable (Opts p)"

section \<open>What MarshalBinary writes\<close>

text \<open>The packet whose addresses extend up to their capacities.\<close>

definition up_to_capacity :: "addr_spares \<Rightarrow> Packet \<Rightarrow> Packet" where
  "up_to_capacity sp p = p\<lparr>CIAddr := map_option (\<lambda>ip. ip @ ci_spare sp) (CIAddr p),
     YIAddr := map_option (\<lambda>ip. ip @ yi_spare sp) (YIAddr p),
     SIAddr := map_option (\<lambda>ip. ip @ si_spare sp) (SIAddr p),
     GIAddr := map_option (\<lambda>ip. ip @ gi_spare sp) (GIAddr p)\<rparr>"

lemma writeIP_eq:
  "writeIP spare b ip = (let ip' = map_option (\<lambda>ip. ip @ spare) ip in
    if ip_writable ip' then Returns (b\<lparr>data := data b @ ip4_field ip'\<rparr>) else Panics)"
  by (auto simp: writeIP_def ip_writable_def ip4_field_def slice_to_def write_simps split: option.split)

lemma set_index_name:
  "set_index (go_copy (zeros n) s) (length s) 0 =
    (if length s < n then Returns (go_copy (zeros n) s) else Panics)"
proof (cases "length s < n")
  case True
  then obtain m where m: "n - length s = Suc m" by (metis Suc_diff_Suc)
  have "go_copy (zeros n) s = s @ 0 # replicate m 0"
    using True m by (simp add: go_copy_zeros) (simp add: zeros_def)
  with True show ?thesis by (simp add: set_index_def)
qed (simp add: set_index_def)

lemma Packet_MarshalBinary_cap_outcome:
  "Packet_MarshalBinary_cap sp p = (let p' = up_to_capacity sp p in if header_writable p' then
     obind (Options_Marshal (Opts p) \<lparr>data = packet_header p', byteCount = 0, order = BigEndian, err = None\<rparr>)
       (\<lambda>b. Returns (Inr (data b)))
   else Panics)"
  by (simp add: Packet_MarshalBinary_cap_def Let_def writeIP_eq set_index_name fill_WriteN write_simps
      header_writable_def packet_header_def NewBigEndianBuffer_eq up_to_capacity_def)

lemma Packet_MarshalBinary_eq:
  "Packet_MarshalBinary p = (if header_writable p then
     obind (Options_Marshal (Opts p) \<lparr>data = packet_header p, byteCount = 0, order = BigEndian, err = None\<rparr>)
       (\<lambda>b. Returns (Inr (data b)))
   else Panics)"
proof -
  have "up_to_capacity \<lparr>ci_spare = [], yi_spare = [], si_spare = [], gi_spare = []\<rparr> p = p"
    by (simp add: up_to_capacity_def option.map_ident)
  then show ?thesis by (simp add: Packet_MarshalBinary_def Packet_MarshalBinary_cap_outcome)
qed

text \<open>With addresses that are nil or have four bytes, nothing depends on capacities.\<close>

lemma Packet_MarshalBinary_cap_eq:
  assumes "ip_writable (CIAddr p)" and "ip_writable (YIAddr p)" and "ip_writable (SIAddr p)" and "ip_writable (GIAddr p)"
  shows "Packet_MarshalBinary_cap sp p = Packet_MarshalBinary p"
proof -
  have "ip_writable (map_option (\<lambda>ip. ip @ s) ip) \<and> ip4_field (map_option (\<lambda>ip. ip @ s) ip) = ip4_field ip"
    if "ip_writable ip" for s ip
    using that by (auto simp: ip_writable_def ip4_field_def split: option.splits)
  with assms have "header_writable (up_to_capacity sp p) = header_writable p"
    "packet_header (up_to_capacity sp p) = packet_header p"
    by (simp_all add: up_to_capacity_def header_writable_def packet_header_def)
  then show ?thesis by (simp add: Packet_MarshalBinary_cap_outcome Packet_MarshalBinary_eq Let_def)
qed

lemma Packet_MarshalBinary_returns:
  "header_writable p \<Longrightarrow> marshalable (Opts p) \<Longrightarrow>
    Packet_MarshalBinary p = Returns (Inr (packet_header p @ wire (items_of_options (Opts p)) 0))"
  by (simp add: Packet_MarshalBinary_eq Options_Marshal_wire)

lemma length_ip4_field: "ip_writable ip \<Longrightarrow> length (ip4_field ip) = 4"
  by (auto simp: ip_writable_def ip4_field_def split: option.splits)

lemma length_packet_header:
  "wf_packet p \<Longrightarrow> header_writable p \<Longrightarrow> length (packet_header p) = 240"
  by (simp add: packet_header_def wf_packet_def header_writable_def length_ip4_field magicCookie_def)

section \<open>What UnmarshalBinary reads\<close>

lemma flag_AND_flagBroadcast:
  "(if b then flagBroadcast else 0) AND flagBroadcast \<noteq> 0 \<longleftrightarrow> b"
  by (simp add: flagBroadcast_def)

lemma cstring_padded: "0 \<notin> set s \<Longrightarrow> length s < n \<Longrightarrow> cstring n (go_copy (zeros n) s) = s"
proof -
  assume s: "0 \<notin> set s" "length s < n"
  then obtain m where m: "n - length s = Suc m" by (metis Suc_diff_Suc)
  have "go_copy (zeros n) s = s @ 0 # replicate m 0"
    using s m by (simp add: go_copy_zeros) (simp add: zeros_def)
  with s show ?thesis by (simp add: cstring_def index_of_append_new)
qed

lemma take_padded: "length s \<le> n \<Longrightarrow> take (length s) (go_copy (zeros n) s) = s"
  by (simp add: go_copy_zeros)

lemma length_magicCookie [simp]: "length magicCookie = 4"
  by (simp add: magicCookie_def)

lemma unmarshal_packet_header:
  assumes "encodable p"
  shows "run_state (unmarshal_header zero_Packet)
      \<lparr>data = packet_header p @ rest, byteCount = c, order = BigEndian, err = e\<rparr> =
    (((canonical p)\<lparr>Opts := Map.empty\<rparr>, magicCookie),
      \<lparr>data = rest, byteCount = c + 240, order = BigEndian, err = e\<rparr>)"
  using assms
  by (cases p) (simp add: unmarshal_header_def packet_header_def encodable_def wf_packet_def
      header_writable_def read_simps length_ip4_field Let_def cstring_padded canonical_def
      zero_Packet_def take_padded flag_AND_flagBroadcast)

lemma ParsePacket_marshalled:
  assumes "encodable p"
  shows "ParsePacket (packet_header p @ wire (items_of_options (Opts p)) 0 @ replicate k Pad) =
    Inr (canonical p)"
proof -
  let ?w = "wire (items_of_options (Opts p)) 0 @ replicate k Pad"
  let ?l = "\<lparr>data = ?w, byteCount = 240, order = BigEndian, err = None\<rparr>"
  have "run_state Options_Unmarshal ?l = ((drop_empty (Opts p), None), advance (length ?w) ?l)"
    using assms Options_roundtrip [of "Opts p" ?l k] by (simp add: encodable_def)
  then show ?thesis
    by (simp add: ParsePacket_def Packet_UnmarshalBinary_def NewBigEndianBuffer_eq unmarshal_packet_header [OF assms] Let_def FinError_def Len_def canonical_def)
qed

text \<open>The bytes of an encodable packet.\<close>

definition packet_bytes :: "Packet \<Rightarrow> byte list" where
  "packet_bytes p = packet_header p @ wire (items_of_options (Opts p)) 0"

lemma encodable_marshals: "encodable p \<Longrightarrow> Packet_MarshalBinary p = Returns (Inr (packet_bytes p))"
  by (simp add: encodable_def Packet_MarshalBinary_returns packet_bytes_def)

lemma ParsePacket_packet_bytes: "encodable p \<Longrightarrow> ParsePacket (packet_bytes p) = Inr (canonical p)"
  using ParsePacket_marshalled [of p 0] by (simp add: packet_bytes_def)

lemma length_packet_bytes:
  assumes "encodable p" and "\<And>c d. Opts p c = Some d \<Longrightarrow> d \<noteq> [] \<and> length d \<le> 255"
  shows "length (packet_bytes p) = 241 + (\<Sum>c \<in> dom (Opts p). 2 + length (bytes_of (Opts p c)))"
  using assms(1) length_wire_items [of "Opts p" 0, OF assms(2)]
  by (simp add: packet_bytes_def length_packet_header encodable_def)

text \<open>The fixed part is 240 bytes: without an error, all of them were there.\<close>

lemma reads_unmarshal_header: "reads 240 (unmarshal_header zero_Packet)"
proof -
  have "reads (1 + (1 + (1 + (1 + (4 + (2 + (2 + (4 + (4 + (4 + (4 + (16 + (64 + (128 + (4 + 0)))))))))))))))
      (unmarshal_header zero_Packet)"
    unfolding unmarshal_header_def Let_def
    by (intro reads_bind Read8.reads_width Read16.reads_width reads_return reads_ReadBytes)
      (simp_all add: zero_Packet_def)
  then show ?thesis by simp
qed

lemma run_unmarshal_header:
  assumes "240 \<le> length (data l)" and "order l = BigEndian"
  shows "run_state (unmarshal_header zero_Packet) l =
    ((decode_header (data l), take 4 (drop 236 (data l))), advance 240 l)"
proof -
  have "hd (data l) = data l ! 0"
    by (rule hd_conv_nth) (use assms in auto)
  with assms show ?thesis
    by (simp add: unmarshal_header_def Let_def Read8.run_ok Read16.run_ok ReadBytes.run_ok
      decode_header_def zero_Packet_def hd_drop_conv_nth take_1_hd min_def
      del: One_nat_def)
qed

lemma ParsePacket_long:
  assumes "240 \<le> length q"
  shows "ParsePacket q =
    (if take 4 (drop 236 q) \<noteq> magicCookie then Inl (BadMagicCookie (take 4 (drop 236 q)))
     else case run_state Options_Unmarshal (advance 240 (NewBigEndianBuffer q)) of
       ((opts, e), b) \<Rightarrow> (case (if e \<noteq> None then e else FinError b) of
           Some e \<Rightarrow> Inl e
         | None \<Rightarrow> Inr ((decode_header q)\<lparr>Opts := opts\<rparr>)))"
proof -
  let ?l = "NewBigEndianBuffer q"
  have l: "data ?l = q" "order ?l = BigEndian"
    by (simp_all add: NewBigEndianBuffer_eq)
  with assms have "run_state (unmarshal_header zero_Packet) ?l =
      ((decode_header q, take 4 (drop 236 q)), advance 240 ?l)"
    by (simp add: run_unmarshal_header)
  then show ?thesis
    by (simp add: ParsePacket_def Packet_UnmarshalBinary_def Let_def split: prod.split option.split)
qed

lemma FinError_None_iff: "FinError b = None \<longleftrightarrow> err b = None \<and> data b = []"
  by (auto simp: FinError_def Len_def)

lemma ParsePacket_length:
  assumes "ParsePacket q = Inr p"
  shows "240 \<le> length q"
proof -
  let ?l = "NewBigEndianBuffer q"
  obtain p1 cookie l1 where h: "run_state (unmarshal_header zero_Packet) ?l = ((p1, cookie), l1)"
    by (metis surj_pair)
  have "cookie = magicCookie"
    using assms h by (auto simp: ParsePacket_def Packet_UnmarshalBinary_def split: if_splits)
  with assms h obtain opts b where o: "run_state Options_Unmarshal l1 = ((opts, None), b)"
    and "FinError b = None"
    by (auto simp: ParsePacket_def Packet_UnmarshalBinary_def Let_def
        split: prod.splits option.splits if_splits)
  with Options_Unmarshal_errors [OF o] have "err (snd (run_state (unmarshal_header zero_Packet) ?l)) = None"
    using h by (simp add: FinError_None_iff)
  with reads_unmarshal_header have "240 \<le> length (data ?l)"
    unfolding reads_def by blast
  then show ?thesis by (simp add: NewBigEndianBuffer_eq)
qed

text \<open>The inputs \<open>ParsePacket\<close> accepts, and what it makes of them.\<close>

lemma ParsePacket_iff:
  "ParsePacket q = Inr p \<longleftrightarrow>
    240 \<le> length q \<and> take 4 (drop 236 q) = magicCookie \<and>
    (\<exists>items k. list_all valid_item items \<and> drop 240 q = wire items k \<and>
      p = (decode_header q)\<lparr>Opts := options_of_items items\<rparr>)"
    (is "?L \<longleftrightarrow> ?R")
proof
  let ?l = "advance 240 (NewBigEndianBuffer q)"
  have l: "data ?l = drop 240 q" "err ?l = None"
    by (simp_all add: NewBigEndianBuffer_eq)
  {
    assume ?L
    note len = ParsePacket_length [OF this]
    with \<open>?L\<close> obtain opts b where cookie: "take 4 (drop 236 q) = magicCookie"
      and o: "run_state Options_Unmarshal ?l = ((opts, None), b)"
      and p: "p = (decode_header q)\<lparr>Opts := opts\<rparr>"
      by (auto simp: ParsePacket_long split: prod.splits option.splits if_splits)
    from Options_Unmarshal_sound [OF o] show ?R
      using len cookie p l by metis
  next
    assume ?R
    then obtain items k where r: "list_all valid_item items" "drop 240 q = wire items k"
      and p: "240 \<le> length q" "take 4 (drop 236 q) = magicCookie"
        "p = (decode_header q)\<lparr>Opts := options_of_items items\<rparr>" by blast
    from Options_Unmarshal_wire [OF r(1), of ?l k] r(2) l
    have "run_state Options_Unmarshal ?l = ((options_of_items items, None), advance (length (data ?l)) ?l)"
      by simp
    with p l show ?L by (simp add: ParsePacket_long FinError_def Len_def NewBigEndianBuffer_eq)
  }
qed

section \<open>Encoding what was decoded\<close>

lemma fold_apply_marshalable:
  "list_all valid_item items \<Longrightarrow> opts Pad = None \<and> opts End = None \<and> (\<forall>k. opts k \<noteq> Some []) \<Longrightarrow>
    fold apply_item items opts Pad = None \<and> fold apply_item items opts End = None \<and>
    (\<forall>k. fold apply_item items opts k \<noteq> Some [])"
proof (induction items arbitrary: opts)
  case (Cons i items)
  have "apply_item i opts Pad = None \<and> apply_item i opts End = None \<and> (\<forall>k. apply_item i opts k \<noteq> Some [])"
    using Cons.prems by (cases i) (auto simp: AddRaw_apply)
  with Cons.IH [of "apply_item i opts"] Cons.prems(1) show ?case by simp
qed simp

lemma options_of_items_marshalable:
  "list_all valid_item items \<Longrightarrow> marshalable (options_of_items items) \<and>
    drop_empty (options_of_items items) = options_of_items items"
  using fold_apply_marshalable [of items Map.empty]
  by (auto simp: marshalable_def options_of_items_fold drop_empty_def fun_eq_iff)

lemma cstring_no_zero: "length f = n \<Longrightarrow> 0 \<notin> set (cstring n f)"
  using index_of_None_iff [of 0 f] index_of_Some [of 0 f]
  by (auto simp: cstring_def split: option.split)

lemma length_cstring: "length f = n \<Longrightarrow> length (cstring n f) < n \<longleftrightarrow> 0 \<in> set f"
  using index_of_None_iff [of 0 f] index_of_Some [of 0 f]
  by (auto simp: cstring_def split: option.split)

text \<open>
  A decoded packet can be encoded again unless one of its two names fills its field to the
  last byte.
\<close>

definition names_terminated :: "byte list \<Rightarrow> bool" where
  "names_terminated q \<longleftrightarrow> 0 \<in> set (take 64 (drop 44 q)) \<and> 0 \<in> set (take 128 (drop 108 q))"

lemma parsed_fields:
  assumes "ParsePacket q = Inr p"
  shows "wf_packet p" and "length (CHAddr p) \<le> 16" and "0 \<notin> set (ServerName p)"
    and "0 \<notin> set (BootFile p)" and "marshalable (Opts p)" and "drop_empty (Opts p) = Opts p"
    and "header_writable p \<longleftrightarrow> names_terminated q"
    and "canonical p = p"
proof -
  from assms obtain items where len: "240 \<le> length q" and v: "list_all valid_item items"
    and p: "p = (decode_header q)\<lparr>Opts := options_of_items items\<rparr>"
    by (auto simp: ParsePacket_iff)
  show "wf_packet p" "length (CHAddr p) \<le> 16"
    using len by (auto simp: p decode_header_def wf_packet_def)
  show "0 \<notin> set (ServerName p)" "0 \<notin> set (BootFile p)"
    using len by (simp_all add: p decode_header_def cstring_no_zero)
  show m: "marshalable (Opts p)" "drop_empty (Opts p) = Opts p"
    using options_of_items_marshalable [OF v] by (simp_all add: p)
  show "header_writable p \<longleftrightarrow> names_terminated q"
    using len by (simp add: p decode_header_def header_writable_def ip_writable_def names_terminated_def
        length_cstring)
  show "canonical p = p"
    using len m(2) by (simp add: p canonical_def decode_header_def ip4_field_def)
qed

section \<open>Properties\<close>

text \<open>
  C16. Round trip: a packet whose addresses are nil or have at least four bytes, whose hardware address has at
  most 16 bytes, whose names leave room for their terminator and contain no zero byte, and whose options can be put on
  the wire (\<open>Pad\<close> has no data and \<open>End\<close> is not a key) is encoded without error, whatever the capacities of its
  addresses, and decoding the bytes gives the packet back in canonical form: empty options are dropped, a nil address
  is four zero bytes, and every other address is cut to its first four bytes. For an IPv4 address in the 16-byte form
  of \<^verbatim>\<open>net.IP\<close> these are zeros, so that such an address is lost; one of four bytes is unchanged.
\<close>

theorem ParsePacket_MarshalBinary:
  assumes "encodable p"
  shows "\<exists>bs. Packet_MarshalBinary_cap sp p = Returns (Inr bs) \<and> ParsePacket bs = Inr (canonical p)"
  using assms ParsePacket_marshalled [OF assms, of 0]
  by (simp add: Packet_MarshalBinary_cap_eq Packet_MarshalBinary_returns encodable_def header_writable_def)

theorem ParsePacket_MarshalBinary_witness:
  "encodable ((NewPacket BootRequest)\<lparr>CHAddr := [254, 171, 103], YIAddr := Some [192, 168, 0, 1],
      ServerName := [98, 111, 111, 116], Opts := [53 \<mapsto> [1]]\<rparr>) \<and>
    (\<exists>bs. Packet_MarshalBinary_cap \<lparr>ci_spare = [], yi_spare = [7], si_spare = [], gi_spare = []\<rparr> ((NewPacket BootRequest)\<lparr>CHAddr := [254, 171, 103],
        YIAddr := Some [192, 168, 0, 1], ServerName := [98, 111, 111, 116], Opts := [53 \<mapsto> [1]]\<rparr>) =
      Returns (Inr bs) \<and>
      ParsePacket bs = Inr (canonical ((NewPacket BootRequest)\<lparr>CHAddr := [254, 171, 103],
        YIAddr := Some [192, 168, 0, 1], ServerName := [98, 111, 111, 116], Opts := [53 \<mapsto> [1]]\<rparr>)))"
    (is "encodable ?p \<and> _")
proof -
  have e: "encodable ?p"
    by (simp add: encodable_def NewPacket_def zero_Packet_def wf_packet_def header_writable_def
        ip_writable_def marshalable_def)
  from e ParsePacket_MarshalBinary [OF e, of "\<lparr>ci_spare = [], yi_spare = [7], si_spare = [], gi_spare = []\<rparr>"]
  show ?thesis by blast
qed

text \<open>
  C19. \<open>ParsePacket\<close> accepts exactly the inputs with a complete 240-byte fixed part, the magic
  cookie at offset 236, and a well-formed options field behind it; it returns the fields found
  at their offsets (RFC 2131, Figure 1) and the options the field denotes. Everything else,
  short input included, is an error.
\<close>

theorem ParsePacket_accepts:
  "ParsePacket q = Inr p \<longleftrightarrow>
    240 \<le> length q \<and> take 4 (drop 236 q) = magicCookie \<and>
    (\<exists>items k. list_all valid_item items \<and> drop 240 q = wire items k \<and>
      p = (decode_header q)\<lparr>Opts := options_of_items items\<rparr>)"
  by (rule ParsePacket_iff)

text \<open>
  C22. How \<open>MarshalBinary\<close> ends: it panics exactly when an address that is not nil has a capacity of fewer than four
  bytes or a name does not leave room for its terminating zero; otherwise it runs forever
  exactly when \<open>Pad\<close> or \<open>End\<close> carries data; otherwise it returns the fixed part, in which an address is given by
  the first four bytes of its array, beyond its length if that is less, followed by the options in the order of
  their codes, and an \<open>End\<close> marker unless \<open>End\<close> is a key, with no error.
\<close>

theorem Packet_MarshalBinary_outcome:
  "Packet_MarshalBinary_cap sp p =
    (if \<not> header_writable (up_to_capacity sp p) then Panics
     else if bytes_of (Opts p Pad) = [] \<and> bytes_of (Opts p End) = []
     then Returns (Inr (packet_header (up_to_capacity sp p) @ concat (map render_item (items_of_options (Opts p)))
       @ (if Opts p End = None then [End] else [])))
     else Diverges)"
  using Options_Marshal_diverges [of Pad "Opts p"] Options_Marshal_diverges [of End "Opts p"]
  by (auto simp: Packet_MarshalBinary_cap_outcome Options_Marshal_returns Let_def)

text \<open>
  An IPv4 address in the form that \<^verbatim>\<open>net.ParseIP\<close> returns, sixteen bytes, is written as the first four of them.
\<close>

lemma mapped_address_lost:
  "length ip = 4 \<Longrightarrow> ip4_field (Some (replicate 10 0 @ [255, 255] @ ip)) = zeros 4"
  by (simp add: ip4_field_def zeros_def numeral_eq_Suc)

text \<open>
  C23. Decode, encode, decode: for a packet that \<open>ParsePacket\<close> returned, \<open>MarshalBinary\<close> panics
  exactly when the server name or the boot file name filled its field without a terminating
  zero byte, which \<open>ParsePacket\<close> accepts. Otherwise encoding succeeds and decoding the result
  gives the very same packet.
\<close>

theorem MarshalBinary_of_parsed:
  assumes "ParsePacket q = Inr p"
  shows "if names_terminated q
    then \<exists>bs. Packet_MarshalBinary p = Returns (Inr bs) \<and> ParsePacket bs = Inr p
    else Packet_MarshalBinary p = Panics"
proof (cases "names_terminated q")
  case True
  note f = parsed_fields [OF assms]
  have e: "encodable p" using True f(1-5,7) by (simp add: encodable_def)
  with ParsePacket_marshalled [OF e, of 0] f(8) True show ?thesis
    by (simp add: Packet_MarshalBinary_returns encodable_def)
next
  case False
  with parsed_fields(7) [OF assms] show ?thesis by (simp add: Packet_MarshalBinary_eq)
qed

theorem MarshalBinary_of_parsed_witness:
  "ParsePacket (replicate 44 0 @ replicate 64 65 @ replicate 128 0 @ magicCookie @ [End]) =
      Inr ((decode_header (replicate 44 0 @ replicate 64 65 @ replicate 128 0 @ magicCookie @ [End]))
        \<lparr>Opts := options_of_items []\<rparr>) \<and>
    Packet_MarshalBinary ((decode_header (replicate 44 0 @ replicate 64 65 @ replicate 128 0 @ magicCookie @ [End]))
        \<lparr>Opts := options_of_items []\<rparr>) = Panics"
    (is "ParsePacket ?q = Inr ?p \<and> _")
proof -
  have p: "ParsePacket ?q = Inr ?p"
    unfolding ParsePacket_iff
    by (intro conjI exI [of _ "[]"] exI [of _ "0 :: nat"]) (simp_all add: wire_def magicCookie_def)
  have "\<not> names_terminated ?q" by (simp add: names_terminated_def)
  with p MarshalBinary_of_parsed [OF p] show ?thesis by simp
qed

end
