(* ===== verification/NetIP.thy ===== *)
theory NetIP
  imports Prelude
begin

text \<open>
  What the sources use of Go's standard package \<^verbatim>\<open>net\<close>: the four-byte form of an address,
  equality of addresses, and membership in a network. These are part of the language's
  library, so they have no source file in the repository.
\<close>

section \<open>Addresses\<close>

definition v4InV6Prefix :: "byte list" where
  "v4InV6Prefix = [0, 0, 0, 0, 0, 0, 0, 0, 0, 0, 255, 255]"

definition net_IPv4 :: "byte \<Rightarrow> byte \<Rightarrow> byte \<Rightarrow> byte \<Rightarrow> net_IP" where
  "net_IPv4 a b c d = Some (v4InV6Prefix @ [a, b, c, d])"

definition IPv4zero :: net_IP where "IPv4zero = net_IPv4 0 0 0 0"

definition IPv4bcast :: net_IP where "IPv4bcast = net_IPv4 255 255 255 255"

text \<open>\<open>ip.To4()\<close>: the address itself when it has four bytes, the last four bytes of a mapped one.\<close>

definition To4 :: "net_IP \<Rightarrow> net_IP" where
  "To4 ip = (let b = bytes_of ip in
     if length b = 4 then ip
     else if length b = 16 \<and> take 12 b = v4InV6Prefix then Some (drop 12 b)
     else None)"

text \<open>\<open>ip.Equal(x)\<close> compares an IPv4 address with its sixteen-byte form as equal.\<close>

definition IP_Equal :: "net_IP \<Rightarrow> net_IP \<Rightarrow> bool" where
  "IP_Equal ip x = (let a = bytes_of ip; b = bytes_of x in
     if length a = length b then a = b
     else if length a = 4 \<and> length b = 16 then take 12 b = v4InV6Prefix \<and> a = drop 12 b
     else if length a = 16 \<and> length b = 4 then take 12 a = v4InV6Prefix \<and> drop 12 a = b
     else False)"

text \<open>
  The address of a UDP endpoint, and a \<open>net.Addr\<close>: a \<open>*net.UDPAddr\<close> or an address of another kind.
\<close>

type_synonym udp_addr = "net_IP \<times> nat"

datatype net_Addr = UDPAddr net_IP nat | OtherAddr

section \<open>Networks\<close>

record IPNet =
  IPNet_IP :: "byte list"
  IPNet_Mask :: "byte list"

definition networkNumberAndMask :: "IPNet \<Rightarrow> byte list \<times> byte list" where
  "networkNumberAndMask n =
     (case (case To4 (Some (IPNet_IP n)) of
              Some ip \<Rightarrow> Some ip
            | None \<Rightarrow> if length (IPNet_IP n) \<noteq> 16 then None else Some (IPNet_IP n)) of
        None \<Rightarrow> ([], [])
      | Some ip \<Rightarrow>
          let m = IPNet_Mask n in
          if length m = 4 then (if length ip \<noteq> 4 then ([], []) else (ip, m))
          else if length m = 16 then (if length ip = 4 then (ip, drop 12 m) else (ip, m))
          else ([], []))"

definition masked :: "byte list \<Rightarrow> byte list \<Rightarrow> byte list" where
  "masked m ip = map2 (AND) ip m"

definition Contains :: "IPNet \<Rightarrow> net_IP \<Rightarrow> bool" where
  "Contains n ip = (case networkNumberAndMask n of (nn, m) \<Rightarrow>
     let b = (case To4 ip of Some x \<Rightarrow> x | None \<Rightarrow> bytes_of ip) in
     if length b \<noteq> length nn then False else masked m nn = masked m b)"

section \<open>Lemmas\<close>

lemma To4_4 [simp]: "length b = 4 \<Longrightarrow> To4 (Some b) = Some b"
  by (simp add: To4_def)

lemma To4_length: "To4 ip = Some b \<Longrightarrow> length b = 4"
  by (cases ip) (auto simp: To4_def Let_def split: if_splits)

lemma To4_None [simp]: "To4 None = None"
  by (simp add: To4_def)

lemma IP_Equal_4: "length a = 4 \<Longrightarrow> IP_Equal (Some a) (Some b) \<longleftrightarrow> To4 (Some b) = Some a"
  by (auto simp: IP_Equal_def To4_def Let_def)

lemma IP_Equal_refl [simp]: "IP_Equal ip ip"
  by (simp add: IP_Equal_def)

lemma IP_Equal_None_4 [simp]:
  "length a = 4 \<Longrightarrow> \<not> IP_Equal None (Some a)" "length a = 4 \<Longrightarrow> \<not> IP_Equal (Some a) None"
  by (auto simp: IP_Equal_def)

lemma IP_Equal_4_4 [simp]:
  "length a = 4 \<Longrightarrow> length b = 4 \<Longrightarrow> IP_Equal (Some a) (Some b) \<longleftrightarrow> a = b"
  by (simp add: IP_Equal_def)

text \<open>A network with a four-byte address and a four-byte mask, as \<^verbatim>\<open>net.ParseCIDR\<close> returns for IPv4.\<close>

definition ipv4_net :: "IPNet \<Rightarrow> bool" where
  "ipv4_net n \<longleftrightarrow> length (IPNet_IP n) = 4 \<and> length (IPNet_Mask n) = 4"

lemma Contains_ipv4:
  "ipv4_net n \<Longrightarrow> length b = 4 \<Longrightarrow>
    Contains n (Some b) \<longleftrightarrow> masked (IPNet_Mask n) (IPNet_IP n) = masked (IPNet_Mask n) b"
  by (simp add: Contains_def networkNumberAndMask_def ipv4_net_def)

lemma Contains_ipv4_To4:
  "ipv4_net n \<Longrightarrow> Contains n ip \<Longrightarrow> \<exists>b. To4 ip = Some b"
  by (cases ip) (auto simp: Contains_def networkNumberAndMask_def ipv4_net_def Let_def To4_def
      split: if_splits)

section \<open>IPv4 networks as ranges of numbers\<close>

abbreviation ip_word :: "byte list \<Rightarrow> u32" where
  "ip_word b \<equiv> word_of_be b 0"

lemma ip_word_inject: "length a = 4 \<Longrightarrow> length b = 4 \<Longrightarrow> ip_word a = ip_word b \<longleftrightarrow> a = b"
  using unat_word_of_be [of a, where ?'a = 32] unat_word_of_be [of b, where ?'a = 32] be_val_inject [of a b]
  by auto

lemma ip_word_masked:
  "length m = 4 \<Longrightarrow> length b = 4 \<Longrightarrow> ip_word (masked m b) = ip_word b AND ip_word m"
  using word_of_be_and [of b m "0 :: u32" 0] by (simp add: masked_def)

lemma Contains_ip_word:
  assumes "ipv4_net n" and "length b = 4"
  shows "Contains n (Some b) \<longleftrightarrow>
    ip_word (IPNet_IP n) AND ip_word (IPNet_Mask n) = ip_word b AND ip_word (IPNet_Mask n)"
proof -
  have "length (masked (IPNet_Mask n) x) = 4" if "length x = 4" for x
    using assms(1) that by (simp add: masked_def ipv4_net_def)
  then have "Contains n (Some b) \<longleftrightarrow>
      ip_word (masked (IPNet_Mask n) (IPNet_IP n)) = ip_word (masked (IPNet_Mask n) b)"
    using assms by (simp add: Contains_ipv4 ip_word_inject ipv4_net_def)
  then show ?thesis using assms by (simp add: ip_word_masked ipv4_net_def)
qed

text \<open>
  A network in CIDR form with \<open>k\<close> host bits, as \<^verbatim>\<open>net.ParseCIDR\<close> returns it: the mask is a prefix
  of ones, and the address is the first one of the network.
\<close>

definition cidr_net :: "nat \<Rightarrow> IPNet \<Rightarrow> bool" where
  "cidr_net k n \<longleftrightarrow> ipv4_net n \<and> k \<le> 32 \<and> ip_word (IPNet_Mask n) = NOT (mask k)
     \<and> 2 ^ k dvd be_val (IPNet_IP n)"

lemma be_val_ip_word: "length b = 4 \<Longrightarrow> be_val b = unat (ip_word b)"
  using unat_word_of_be [of b, where ?'a = 32] by simp

lemma unat_drop_bit_div: "unat (drop_bit k w) = unat w div 2 ^ k" for w :: "'a::len word"
  by (simp only: unat_drop_bit_eq) (simp only: drop_bit_eq_div)

lemma cidr_Contains:
  assumes "cidr_net k n" and "length b = 4"
  shows "Contains n (Some b) \<longleftrightarrow>
    be_val (IPNet_IP n) \<le> be_val b \<and> be_val b < be_val (IPNet_IP n) + 2 ^ k"
proof -
  let ?i = "be_val (IPNet_IP n)"
  have "Contains n (Some b) \<longleftrightarrow> drop_bit k (ip_word (IPNet_IP n)) = drop_bit k (ip_word b)"
    using assms by (simp add: Contains_ip_word cidr_net_def eq_AND_NOT_mask)
  also have "\<dots> \<longleftrightarrow> unat (drop_bit k (ip_word (IPNet_IP n))) = unat (drop_bit k (ip_word b))"
    by (simp only: word_unat_eq_iff)
  also have "\<dots> \<longleftrightarrow> ?i div 2 ^ k = be_val b div 2 ^ k"
    using assms by (simp only: unat_drop_bit_div be_val_ip_word cidr_net_def ipv4_net_def)
  also have "\<dots> \<longleftrightarrow> ?i \<le> be_val b \<and> be_val b < ?i + 2 ^ k"
  proof -
    obtain q where q: "?i = 2 ^ k * q" using assms(1) by (auto simp: cidr_net_def)
    have "q = be_val b div 2 ^ k \<longleftrightarrow> 2 ^ k * q \<le> be_val b \<and> be_val b < 2 ^ k * Suc q"
      by (metis div_nat_eqI dividend_less_times_div mult.commute times_div_less_eq_dividend
          zero_less_numeral zero_less_power mult_Suc_right add.commute)
    then show ?thesis by (simp add: q ac_simps)
  qed
  finally show ?thesis .
qed

end
