(* ===== verification/OptTypes.thy ===== *)
theory OptTypes
  imports Packet NetIP
begin

text \<open>
  \<^verbatim>\<open>dhcp4opts/types.go\<close>: the typed values of DHCP options with their encodings. Each type has
  a \<open>MarshalBinary\<close> and (strings apart) an \<open>UnmarshalBinary\<close>; the latter writes its receiver
  whether or not it also returns an error, so it is modelled as the pair of both.
\<close>

section \<open>DHCPMessageType\<close>

type_synonym DHCPMessageType = byte

definition DHCPDiscover :: DHCPMessageType where [simp]: "DHCPDiscover = 1"
definition DHCPOffer :: DHCPMessageType where [simp]: "DHCPOffer = 2"
definition DHCPRequest :: DHCPMessageType where [simp]: "DHCPRequest = 3"
definition DHCPDecline :: DHCPMessageType where [simp]: "DHCPDecline = 4"
definition DHCPACK :: DHCPMessageType where [simp]: "DHCPACK = 5"
definition DHCPNAK :: DHCPMessageType where [simp]: "DHCPNAK = 6"
definition DHCPRelease :: DHCPMessageType where [simp]: "DHCPRelease = 7"
definition DHCPInform :: DHCPMessageType where [simp]: "DHCPInform = 8"

definition DHCPMessageType_MarshalBinary :: "DHCPMessageType \<Rightarrow> (go_error + byte list) outcome" where
  "DHCPMessageType_MarshalBinary d = Returns (Inr [d])"

definition DHCPMessageType_UnmarshalBinary :: "byte list \<Rightarrow> DHCPMessageType \<times> go_error option" where
  "DHCPMessageType_UnmarshalBinary p =
     (case run_state Read8 (NewBigEndianBuffer p) of (d, buf) \<Rightarrow> (d, FinError buf))"

section \<open>SubnetMask\<close>

text \<open>
  \<open>s[:net.IPv4len]\<close> panics for a mask that is nil, which has no capacity, or whose capacity is smaller. \<open>spare\<close> is what the
  array holds beyond the length.
\<close>

definition slice4 :: "byte list \<Rightarrow> byte list option \<Rightarrow> byte list outcome" where
  "slice4 spare s = (case s of None \<Rightarrow> slice_to [] [] IPv4len | Some xs \<Rightarrow> slice_to spare xs IPv4len)"

definition SubnetMask_MarshalBinary :: "byte list \<Rightarrow> byte list option \<Rightarrow> (go_error + byte list) outcome" where
  "SubnetMask_MarshalBinary spare s = obind (slice4 spare s) (\<lambda>b. Returns (Inr b))"

definition SubnetMask_UnmarshalBinary :: "byte list \<Rightarrow> byte list option \<times> go_error option" where
  "SubnetMask_UnmarshalBinary p =
     (case run_state (CopyN IPv4len) (NewBigEndianBuffer p) of (s, buf) \<Rightarrow> (s, FinError buf))"

section \<open>IP\<close>

definition IP_MarshalBinary :: "byte list \<Rightarrow> net_IP \<Rightarrow> (go_error + byte list) outcome" where
  "IP_MarshalBinary spare i = obind (slice4 spare i) (\<lambda>b. Returns (Inr b))"

text \<open>Here the receiver is left alone when the input is too short; bytes after the fourth are ignored.\<close>

definition IP_UnmarshalBinary :: "byte list \<Rightarrow> net_IP \<Rightarrow> net_IP \<times> go_error option" where
  "IP_UnmarshalBinary p i =
     (if length p < IPv4len then (i, Some ErrUnexpectedEOF)
      else (Some (go_copy (zeros IPv4len) (take IPv4len p)), None))"

definition GetIP :: "OptionCode \<Rightarrow> Options \<Rightarrow> net_IP" where
  "GetIP code opts = (case Options_Get code opts of
     None \<Rightarrow> None
   | Some v \<Rightarrow> (case IP_UnmarshalBinary v None of
         (ip, Some e) \<Rightarrow> None
       | (ip, None) \<Rightarrow> ip))"

section \<open>IPs\<close>

type_synonym IPs = "net_IP list"

text \<open>An address that has no four-byte form is written as nothing.\<close>

definition IPs_MarshalBinary :: "IPs \<Rightarrow> (go_error + byte list) outcome" where
  "IPs_MarshalBinary i = Returns (Inr (data
     (fold (\<lambda>ip b. WriteBytes (bytes_of (To4 ip)) b) i (NewBigEndianBuffer []))))"

lemma CopyN_decreases:
  "run_state (CopyN n) b = (r, b') \<Longrightarrow> 0 < n \<Longrightarrow> Has n b \<Longrightarrow> length (data b') < length (data b)"
  by (auto simp: CopyN.run_ok Has_def)

function ips_loop :: "IPs \<Rightarrow> Lexer \<Rightarrow> IPs \<times> Lexer" where
  "ips_loop i b =
     (if Has IPv4len b then case run_state (CopyN IPv4len) b of (ip, b') \<Rightarrow> ips_loop (i @ [ip]) b'
      else (i, b))"
  by pat_completeness auto
termination
  by (relation "measure (\<lambda>(i, b). length (data b))") (auto dest: CopyN_decreases [OF sym])

declare ips_loop.simps [simp del]

definition IPs_UnmarshalBinary :: "byte list \<Rightarrow> IPs \<times> go_error option" where
  "IPs_UnmarshalBinary p = (case ips_loop [] (NewBigEndianBuffer p) of (i, b) \<Rightarrow> (i, FinError b))"

definition GetIPs :: "OptionCode \<Rightarrow> Options \<Rightarrow> IPs option" where
  "GetIPs code opts = (case Options_Get code opts of
     None \<Rightarrow> None
   | Some v \<Rightarrow> (case IPs_UnmarshalBinary v of
         (i, Some e) \<Rightarrow> None
       | (i, None) \<Rightarrow> Some i))"

section \<open>String\<close>

definition String_MarshalBinary :: "byte list \<Rightarrow> (go_error + byte list) outcome" where
  "String_MarshalBinary s = Returns (Inr s)"

definition GetString :: "OptionCode \<Rightarrow> Options \<Rightarrow> byte list" where
  "GetString code opts = (case Options_Get code opts of None \<Rightarrow> [] | Some v \<Rightarrow> v)"

section \<open>OptionCodes\<close>

definition OptionCodes_MarshalBinary :: "OptionCode list \<Rightarrow> (go_error + byte list) outcome" where
  "OptionCodes_MarshalBinary o' = Returns (Inr (data
     (fold (\<lambda>code b. Write8 code b) o' (NewBigEndianBuffer []))))"

lemma Read8_decreases:
  "run_state Read8 b = (r, b') \<Longrightarrow> Has 1 b \<Longrightarrow> length (data b') < length (data b)"
  by (auto simp: run_Read8 Has_def split: if_splits)

function codes_loop :: "OptionCode list \<Rightarrow> Lexer \<Rightarrow> OptionCode list \<times> Lexer" where
  "codes_loop acc b =
     (if Has 1 b then case run_state Read8 b of (c, b') \<Rightarrow> codes_loop (acc @ [c]) b'
      else (acc, b))"
  by pat_completeness auto
termination
  by (relation "measure (\<lambda>(acc, b). length (data b))") (auto dest: Read8_decreases [OF sym])

declare codes_loop.simps [simp del]

definition OptionCodes_UnmarshalBinary :: "byte list \<Rightarrow> OptionCode list \<times> go_error option" where
  "OptionCodes_UnmarshalBinary p =
     (case codes_loop [] (NewBigEndianBuffer p) of (o', b) \<Rightarrow> (o', FinError b))"

section \<open>Uint16 and Uint32\<close>

definition Uint16_MarshalBinary :: "u16 \<Rightarrow> (go_error + byte list) outcome" where
  "Uint16_MarshalBinary u = Returns (Inr (data (Write16 u (NewBigEndianBuffer []))))"

definition Uint16_UnmarshalBinary :: "byte list \<Rightarrow> u16 \<times> go_error option" where
  "Uint16_UnmarshalBinary p =
     (case run_state Read16 (NewBigEndianBuffer p) of (u, b) \<Rightarrow> (u, FinError b))"

definition Uint32_MarshalBinary :: "u32 \<Rightarrow> (go_error + byte list) outcome" where
  "Uint32_MarshalBinary u = Returns (Inr (data (Write32 u (NewBigEndianBuffer []))))"

definition Uint32_UnmarshalBinary :: "byte list \<Rightarrow> u32 \<times> go_error option" where
  "Uint32_UnmarshalBinary p =
     (case run_state Read32 (NewBigEndianBuffer p) of (u, b) \<Rightarrow> (u, FinError b))"

section \<open>Every type is a codec\<close>

text \<open>
  The contract between an option type and the options map: a valid value is encoded without
  error or panic, and decoding what was written gives it back.
\<close>

locale option_codec =
  fixes enc :: "'a \<Rightarrow> (go_error + byte list) outcome"
    and dec :: "byte list \<Rightarrow> 'a \<times> go_error option"
    and valid :: "'a \<Rightarrow> bool"
  assumes roundtrip: "valid x \<Longrightarrow> \<exists>b. enc x = Returns (Inr b) \<and> dec b = (x, None)"
begin

lemma enc_inject: "valid x \<Longrightarrow> valid y \<Longrightarrow> enc x = enc y \<Longrightarrow> x = y"
  using roundtrip [of x] roundtrip [of y] by auto

text \<open>A value added under a fresh key is the one a lookup of that key decodes.\<close>

lemma Add_Get:
  assumes "valid x" and "opts key = None"
  obtains b where "enc x = Returns (Inr b)" and "dec b = (x, None)"
    and "Options_Add key (Some (enc x)) opts = Returns (opts(key \<mapsto> b), None)"
proof -
  from roundtrip [OF assms(1)] obtain b where "enc x = Returns (Inr b)" "dec b = (x, None)" by blast
  with that assms(2) show ?thesis by (simp add: Options_Add_def AddRaw_def)
qed

end

lemma FinError_all_read [simp]:
  "FinError \<lparr>data = [], byteCount = c, order = ord, err = None\<rparr> = None"
  by (simp add: FinError_None_iff)

lemma fold_WriteBytes:
  "fold (\<lambda>x b. WriteBytes (f x) b) xs l = l\<lparr>data := data l @ concat (map f xs)\<rparr>"
  by (induction xs arbitrary: l) (simp_all add: write_simps)

lemma fold_Write8: "fold (\<lambda>x b. Write8 x b) xs l = l\<lparr>data := data l @ xs\<rparr>"
  by (induction xs arbitrary: l) (simp_all add: write_simps)

lemma ips_loop_chunk:
  "length ip = 4 \<Longrightarrow>
    ips_loop i \<lparr>data = ip @ rest, byteCount = c, order = ord, err = e\<rparr> =
      ips_loop (i @ [Some ip]) \<lparr>data = rest, byteCount = c + 4, order = ord, err = e\<rparr>"
  by (subst ips_loop.simps) (simp add: Has_def read_simps)

definition ip4s :: "IPs \<Rightarrow> bool" where
  "ip4s = list_all (\<lambda>ip. \<exists>b. ip = Some b \<and> length b = 4)"

lemma ips_loop_all:
  "ip4s is \<Longrightarrow>
    ips_loop acc \<lparr>data = concat (map bytes_of is), byteCount = c, order = ord, err = e\<rparr> =
      (acc @ is, \<lparr>data = [], byteCount = c + 4 * length is, order = ord, err = e\<rparr>)"
proof (induction "is" arbitrary: acc c)
  case Nil
  then show ?case by (subst ips_loop.simps) (simp add: Has_def)
next
  case (Cons ip "is")
  then show ?case by (auto simp: ip4s_def ips_loop_chunk)
qed

lemma ip4s_To4: "ip4s is \<Longrightarrow> map (\<lambda>ip. bytes_of (To4 ip)) is = map bytes_of is"
  by (induction "is") (auto simp: ip4s_def)

lemma codes_loop_all:
  "codes_loop acc \<lparr>data = cs, byteCount = c, order = ord, err = e\<rparr> =
     (acc @ cs, \<lparr>data = [], byteCount = c + length cs, order = ord, err = e\<rparr>)"
proof (induction cs arbitrary: acc c)
  case Nil
  then show ?case by (subst codes_loop.simps) (simp add: Has_def)
next
  case (Cons x cs)
  then show ?case by (subst codes_loop.simps) (simp add: Has_def read_simps)
qed

lemmas codec_defs = NewBigEndianBuffer_eq read_simps write_simps

interpretation msgtype: option_codec DHCPMessageType_MarshalBinary DHCPMessageType_UnmarshalBinary "\<lambda>_. True"
  by unfold_locales
    (simp add: DHCPMessageType_MarshalBinary_def DHCPMessageType_UnmarshalBinary_def codec_defs)

interpretation mask: option_codec "SubnetMask_MarshalBinary spare" SubnetMask_UnmarshalBinary
    "\<lambda>s. \<exists>b. s = Some b \<and> length b = 4"
  by unfold_locales
    (auto simp: SubnetMask_MarshalBinary_def slice4_def SubnetMask_UnmarshalBinary_def NewBigEndianBuffer_eq
      CopyN.run_append [where ys = "[]", simplified])

interpretation ip: option_codec "IP_MarshalBinary spare" "\<lambda>p. IP_UnmarshalBinary p None"
    "\<lambda>i. \<exists>b. i = Some b \<and> length b = 4"
proof unfold_locales
  fix i :: net_IP
  assume "\<exists>b. i = Some b \<and> length b = 4"
  then obtain b where "i = Some b" "length b = 4" by blast
  then show "\<exists>b. IP_MarshalBinary spare i = Returns (Inr b) \<and> IP_UnmarshalBinary b None = (i, None)"
    by (intro exI [of _ b]) (simp add: IP_MarshalBinary_def slice4_def IP_UnmarshalBinary_def go_copy_exact)
qed

interpretation ips: option_codec IPs_MarshalBinary IPs_UnmarshalBinary ip4s
  by unfold_locales (simp add: IPs_MarshalBinary_def IPs_UnmarshalBinary_def fold_WriteBytes
      NewBigEndianBuffer_eq ip4s_To4 ips_loop_all)

interpretation codes: option_codec OptionCodes_MarshalBinary OptionCodes_UnmarshalBinary "\<lambda>_. True"
  by unfold_locales (simp add: OptionCodes_MarshalBinary_def OptionCodes_UnmarshalBinary_def
      fold_Write8 NewBigEndianBuffer_eq codes_loop_all)

interpretation uint16: option_codec Uint16_MarshalBinary Uint16_UnmarshalBinary "\<lambda>_. True"
  by unfold_locales (simp add: Uint16_MarshalBinary_def Uint16_UnmarshalBinary_def codec_defs
      Read16.run_append [where ys = "[]", simplified])

interpretation uint32: option_codec Uint32_MarshalBinary Uint32_UnmarshalBinary "\<lambda>_. True"
  by unfold_locales (simp add: Uint32_MarshalBinary_def Uint32_UnmarshalBinary_def codec_defs
      Read32.run_append [where ys = "[]", simplified])

section \<open>Which inputs the decoders accept\<close>

lemma DHCPMessageType_accepts: "snd (DHCPMessageType_UnmarshalBinary p) = None \<longleftrightarrow> length p = 1"
  by (cases p) (auto simp: DHCPMessageType_UnmarshalBinary_def NewBigEndianBuffer_eq run_Read8
      FinError_None_iff)

lemma SubnetMask_accepts: "snd (SubnetMask_UnmarshalBinary p) = None \<longleftrightarrow> length p = 4"
  by (cases "4 \<le> length p") (auto simp: SubnetMask_UnmarshalBinary_def NewBigEndianBuffer_eq
      CopyN.run_ok CopyN.run_short FinError_None_iff)

lemma Uint16_accepts: "snd (Uint16_UnmarshalBinary p) = None \<longleftrightarrow> length p = 2"
  by (cases "2 \<le> length p") (auto simp: Uint16_UnmarshalBinary_def NewBigEndianBuffer_eq
      Read16.run_ok Read16.run_short FinError_None_iff)

lemma Uint32_accepts: "snd (Uint32_UnmarshalBinary p) = None \<longleftrightarrow> length p = 4"
  by (cases "4 \<le> length p") (auto simp: Uint32_UnmarshalBinary_def NewBigEndianBuffer_eq
      Read32.run_ok Read32.run_short FinError_None_iff)

lemma ips_loop_unfold:
  "ips_loop i b = (if 4 \<le> length (data b) then ips_loop (i @ [Some (take 4 (data b))]) (advance 4 b)
     else (i, b))"
  by (subst ips_loop.simps) (simp add: Has_def CopyN.run_ok)

text \<open>The address loop cuts its input into four-byte addresses and leaves the rest unread.\<close>

lemma ips_loop_result:
  "\<exists>is. ips_loop acc b = (acc @ is, advance (4 * length is) b) \<and> ip4s is \<and>
     length is = length (data b) div 4 \<and> concat (map bytes_of is) = take (4 * length is) (data b)"
proof (induction "length (data b)" arbitrary: acc b rule: less_induct)
  case less
  show ?case
  proof (cases "4 \<le> length (data b)")
    case True
    then have "length (data (advance 4 b)) < length (data b)" by simp
    from less.hyps [OF this, of "acc @ [Some (take 4 (data b))]"] obtain "is" where
      "ips_loop (acc @ [Some (take 4 (data b))]) (advance 4 b) =
         ((acc @ [Some (take 4 (data b))]) @ is, advance (4 * length is) (advance 4 b))"
      "ip4s is" "length is = length (data (advance 4 b)) div 4"
      "concat (map bytes_of is) = take (4 * length is) (data (advance 4 b))" by blast
    with True show ?thesis
      by (intro exI [of _ "Some (take 4 (data b)) # is"])
        (auto simp: ips_loop_unfold [of acc b] ip4s_def take_add [symmetric] div_eq_dividend_iff le_div_geq)
  next
    case False
    then show ?thesis
      by (intro exI [of _ "[]"]) (simp add: ips_loop_unfold [of acc b] ip4s_def)
  qed
qed

lemma IPs_accepts: "snd (IPs_UnmarshalBinary p) = None \<longleftrightarrow> 4 dvd length p"
proof -
  obtain "is" where "ips_loop [] (NewBigEndianBuffer p) = (is, advance (4 * length is) (NewBigEndianBuffer p))"
    and "length is = length p div 4"
    using ips_loop_result [of "[]" "NewBigEndianBuffer p"] by (auto simp: NewBigEndianBuffer_eq)
  then have "snd (IPs_UnmarshalBinary p) = None \<longleftrightarrow> length p \<le> 4 * (length p div 4)"
    by (simp add: IPs_UnmarshalBinary_def FinError_None_iff NewBigEndianBuffer_eq)
  also have "\<dots> \<longleftrightarrow> 4 dvd length p"
    by presburger
  finally show ?thesis .
qed

end
