(* ===== verification/OptGet.thy ===== *)
theory OptGet
  imports OptTypes
begin

text \<open>
  \<^verbatim>\<open>dhcp4opts/options.go\<close>: one getter per DHCP option. Most of them read an address, a list of
  addresses or a string under their option code.
\<close>

section \<open>Getters of addresses, lists of addresses and strings\<close>

definition GetRouters :: "Options \<Rightarrow> IPs option" where
  "GetRouters opts = GetIPs OptionRouters opts"

definition GetTimeServers :: "Options \<Rightarrow> IPs option" where
  "GetTimeServers opts = GetIPs OptionTimeServers opts"

definition GetNameServers :: "Options \<Rightarrow> IPs option" where
  "GetNameServers opts = GetIPs OptionNameServers opts"

definition GetDomainNameServers :: "Options \<Rightarrow> IPs option" where
  "GetDomainNameServers opts = GetIPs OptionDomainNameServers opts"

definition GetLogServers :: "Options \<Rightarrow> IPs option" where
  "GetLogServers opts = GetIPs OptionLogServers opts"

definition GetCookieServers :: "Options \<Rightarrow> IPs option" where
  "GetCookieServers opts = GetIPs OptionCookieServers opts"

definition GetLPRServers :: "Options \<Rightarrow> IPs option" where
  "GetLPRServers opts = GetIPs OptionLPRServers opts"

definition GetImpressServers :: "Options \<Rightarrow> IPs option" where
  "GetImpressServers opts = GetIPs OptionImpressServers opts"

definition GetResourceLocationServers :: "Options \<Rightarrow> IPs option" where
  "GetResourceLocationServers opts = GetIPs OptionResourceLocationServers opts"

definition GetHostName :: "Options \<Rightarrow> byte list" where
  "GetHostName opts = GetString OptionHostName opts"

definition GetMeritDumpFile :: "Options \<Rightarrow> byte list" where
  "GetMeritDumpFile opts = GetString OptionMeritDumpFile opts"

definition GetDomainName :: "Options \<Rightarrow> byte list" where
  "GetDomainName opts = GetString OptionDomainName opts"

definition GetSwapServer :: "Options \<Rightarrow> net_IP" where
  "GetSwapServer opts = GetIP OptionSwapServer opts"

definition GetRootPath :: "Options \<Rightarrow> byte list" where
  "GetRootPath opts = GetString OptionRootPath opts"

definition GetExtensionsPath :: "Options \<Rightarrow> byte list" where
  "GetExtensionsPath opts = GetString OptionExtensionsPath opts"

definition GetBroadcastAddress :: "Options \<Rightarrow> net_IP" where
  "GetBroadcastAddress opts = GetIP OptionBroadcastAddress opts"

definition GetRouterSolicitationAddress :: "Options \<Rightarrow> net_IP" where
  "GetRouterSolicitationAddress opts = GetIP OptionRouterSolicitationAddress opts"

definition GetNetworkInformationServers :: "Options \<Rightarrow> IPs option" where
  "GetNetworkInformationServers opts = GetIPs OptionNetworkInformationServers opts"

definition GetNetworkTimeProtocolServers :: "Options \<Rightarrow> IPs option" where
  "GetNetworkTimeProtocolServers opts = GetIPs OptionNetworkTimeProtocolServers opts"

definition GetNBNServer :: "Options \<Rightarrow> IPs option" where
  "GetNBNServer opts = GetIPs OptionNetBIOSOverTCPIPNameServer opts"

definition GetNBDDServer :: "Options \<Rightarrow> IPs option" where
  "GetNBDDServer opts = GetIPs OptionNetBIOSOverTCPIPDatagramDistributionServer opts"

definition GetXWindowSystemFontServer :: "Options \<Rightarrow> IPs option" where
  "GetXWindowSystemFontServer opts = GetIPs OptionXWindowSystemFontServer opts"

definition GetXWindowSystemDisplayManager :: "Options \<Rightarrow> IPs option" where
  "GetXWindowSystemDisplayManager opts = GetIPs OptionXWindowSystemDisplayManager opts"

definition GetRequestedIPAddress :: "Options \<Rightarrow> net_IP" where
  "GetRequestedIPAddress opts = GetIP OptionRequestedIPAddress opts"

definition GetServerIdentifier :: "Options \<Rightarrow> net_IP" where
  "GetServerIdentifier opts = GetIP OptionServerIdentifier opts"

section \<open>Getters with their own decoding\<close>

definition GetSubnetMask :: "Options \<Rightarrow> byte list option" where
  "GetSubnetMask opts = (case Options_Get OptionSubnetMask opts of
     None \<Rightarrow> None
   | Some v \<Rightarrow> (case SubnetMask_UnmarshalBinary v of
         (s, Some e) \<Rightarrow> None
       | (s, None) \<Rightarrow> s))"

definition GetDHCPMessageType :: "Options \<Rightarrow> DHCPMessageType" where
  "GetDHCPMessageType opts = (case Options_Get OptionDHCPMessageType opts of
     None \<Rightarrow> 0
   | Some v \<Rightarrow> (case DHCPMessageType_UnmarshalBinary v of
         (d, Some e) \<Rightarrow> 0
       | (d, None) \<Rightarrow> d))"

definition GetParameterRequestList :: "Options \<Rightarrow> OptionCode list option" where
  "GetParameterRequestList opts = (case Options_Get OptionParameterRequestList opts of
     None \<Rightarrow> None
   | Some v \<Rightarrow> (case OptionCodes_UnmarshalBinary v of
         (oc, Some e) \<Rightarrow> None
       | (oc, None) \<Rightarrow> Some oc))"

text \<open>
  The last two getters read the variable \<open>u\<close> and call a method that assigns it in the same
  return statement. The Go specification orders calls among each other but not the read of a
  variable and a call, so which of the two comes first is a parameter of the model.
\<close>

datatype eval_order = CallFirst | ReadFirst

definition GetMaximumDHCPMessageSize :: "eval_order \<Rightarrow> Options \<Rightarrow> u16 \<times> go_error option" where
  "GetMaximumDHCPMessageSize ord opts = (case Options_Get OptionMaximumDHCPMessageSize opts of
     None \<Rightarrow> (0, Some ErrOptionNotPresent)
   | Some v \<Rightarrow> (case Uint16_UnmarshalBinary v of (u, e) \<Rightarrow>
       (case ord of CallFirst \<Rightarrow> u | ReadFirst \<Rightarrow> 0, e)))"

text \<open>A \<open>time.Duration\<close> is a 64-bit integer of nanoseconds, whose product wraps around.\<close>

definition time_Second :: u64 where "time_Second = 1000000000"

definition GetIPAddressLeaseTime :: "eval_order \<Rightarrow> Options \<Rightarrow> u64 \<times> go_error option" where
  "GetIPAddressLeaseTime ord opts = (case Options_Get OptionIPAddressLeaseTime opts of
     None \<Rightarrow> (0, Some ErrOptionNotPresent)
   | Some v \<Rightarrow> (case Uint32_UnmarshalBinary v of (u, e) \<Rightarrow>
       (ucast (case ord of CallFirst \<Rightarrow> u | ReadFirst \<Rightarrow> (0 :: u32)) * time_Second, e)))"

section \<open>What the getters return\<close>

lemma GetIP_eq:
  "GetIP code opts = (case opts code of None \<Rightarrow> None
     | Some v \<Rightarrow> if length v < 4 then None else Some (take 4 v))"
  by (auto simp: GetIP_def IP_UnmarshalBinary_def go_copy_exact split: option.split)

lemma GetIP_length: "GetIP code opts = Some ip \<Longrightarrow> length ip = 4"
  by (auto simp: GetIP_eq split: option.splits if_splits)

lemma GetDHCPMessageType_eq:
  "GetDHCPMessageType opts = (case opts OptionDHCPMessageType of Some [d] \<Rightarrow> d | _ \<Rightarrow> 0)"
proof (cases "opts OptionDHCPMessageType")
  case (Some v)
  show ?thesis
  proof (cases "\<exists>d. v = [d]")
    case True
    with Some show ?thesis
      by (auto simp: GetDHCPMessageType_def DHCPMessageType_UnmarshalBinary_def codec_defs)
  next
    case False
    then have "snd (DHCPMessageType_UnmarshalBinary v) \<noteq> None"
      by (auto simp: DHCPMessageType_accepts length_Suc_conv)
    with Some False show ?thesis
      by (auto simp: GetDHCPMessageType_def split: prod.split option.split list.split)
  qed
qed (simp add: GetDHCPMessageType_def)

section \<open>Properties\<close>

text \<open>
  Which encodings the option types accept: a message type is one byte, a subnet mask four, a
  16-bit and a 32-bit number two and four, a list of addresses any multiple of four bytes.
  Everything else is reported as an error.
\<close>

lemma option_types_accept:
  "(snd (DHCPMessageType_UnmarshalBinary p) = None \<longleftrightarrow> length p = 1) \<and>
    (snd (SubnetMask_UnmarshalBinary p) = None \<longleftrightarrow> length p = 4) \<and>
    (snd (IPs_UnmarshalBinary p) = None \<longleftrightarrow> 4 dvd length p) \<and>
    (snd (Uint16_UnmarshalBinary p) = None \<longleftrightarrow> length p = 2) \<and>
    (snd (Uint32_UnmarshalBinary p) = None \<longleftrightarrow> length p = 4)"
  by (simp add: DHCPMessageType_accepts SubnetMask_accepts IPs_accepts Uint16_accepts Uint32_accepts)

text \<open>
  A list of IPv4 addresses added to a map that has no such option is what \<open>GetIPs\<close> returns for
  that code, in the same order; the other options are unchanged.
\<close>

lemma GetIPs_after_Add:
  assumes "ip4s is" and "opts code = None"
  shows "\<exists>opts'. Options_Add code (Some (IPs_MarshalBinary is)) opts = Returns (opts', None) \<and>
    GetIPs code opts' = Some is \<and> (\<forall>c. c \<noteq> code \<longrightarrow> opts' c = opts c)"
proof -
  obtain b where "IPs_UnmarshalBinary b = (is, None)"
    "Options_Add code (Some (IPs_MarshalBinary is)) opts = Returns (opts(code \<mapsto> b), None)"
    using ips.Add_Get [of "is" opts code, OF assms] by metis
  then show ?thesis by (auto simp: GetIPs_def)
qed

text \<open>
  C39. The getters return what was added: on any map without these four options, adding a message type, a
  subnet mask of four bytes, a requested address of four bytes (whatever the capacities of both), and a parameter
  request list makes the four getters return exactly these values, and leaves every other option alone. An address
  in the 16-byte form would be cut to its first four bytes.
\<close>

theorem typed_options_roundtrip:
  assumes "length m = 4" and "length i = 4" and "opts OptionDHCPMessageType = None" and "opts OptionSubnetMask = None"
    and "opts OptionRequestedIPAddress = None" and "opts OptionParameterRequestList = None"
  shows "\<exists>o1 o2 o3 o4.
    Options_Add OptionDHCPMessageType (Some (DHCPMessageType_MarshalBinary t)) opts = Returns (o1, None) \<and>
    Options_Add OptionSubnetMask (Some (SubnetMask_MarshalBinary sm (Some m))) o1 = Returns (o2, None) \<and>
    Options_Add OptionRequestedIPAddress (Some (IP_MarshalBinary si (Some i))) o2 = Returns (o3, None) \<and>
    Options_Add OptionParameterRequestList (Some (OptionCodes_MarshalBinary cs)) o3 = Returns (o4, None) \<and>
    GetDHCPMessageType o4 = t \<and> GetSubnetMask o4 = Some m \<and> GetRequestedIPAddress o4 = Some i \<and>
    GetParameterRequestList o4 = Some cs \<and>
    (\<forall>c. c \<notin> {OptionDHCPMessageType, OptionSubnetMask, OptionRequestedIPAddress, OptionParameterRequestList} \<longrightarrow>
      o4 c = opts c)"
proof -
  obtain b1 where b1: "DHCPMessageType_MarshalBinary t = Returns (Inr b1)"
    "DHCPMessageType_UnmarshalBinary b1 = (t, None)"
    using msgtype.roundtrip [of t] by blast
  obtain b2 where b2: "SubnetMask_MarshalBinary sm (Some m) = Returns (Inr b2)"
    "SubnetMask_UnmarshalBinary b2 = (Some m, None)"
    using mask.roundtrip [of "Some m" sm] assms(1) by blast
  obtain b3 where b3: "IP_MarshalBinary si (Some i) = Returns (Inr b3)"
    "IP_UnmarshalBinary b3 None = (Some i, None)"
    using ip.roundtrip [of "Some i" si] assms(2) by blast
  obtain b4 where b4: "OptionCodes_MarshalBinary cs = Returns (Inr b4)"
    "OptionCodes_UnmarshalBinary b4 = (cs, None)"
    using codes.roundtrip [of cs] by blast
  from assms(3-6) show ?thesis
    by (simp add: b1 b2 b3 b4 Options_Add_def AddRaw_def GetDHCPMessageType_def GetSubnetMask_def
        GetRequestedIPAddress_def GetIP_def GetParameterRequestList_def)
qed

theorem typed_options_roundtrip_witness:
  "\<exists>o1 o2 o3 o4.
    Options_Add OptionDHCPMessageType (Some (DHCPMessageType_MarshalBinary 3)) [12 \<mapsto> [104]] = Returns (o1, None) \<and>
    Options_Add OptionSubnetMask (Some (SubnetMask_MarshalBinary [] (Some [255, 255, 255, 0]))) o1 = Returns (o2, None) \<and>
    Options_Add OptionRequestedIPAddress (Some (IP_MarshalBinary [] (Some [192, 168, 1, 7]))) o2 = Returns (o3, None) \<and>
    Options_Add OptionParameterRequestList (Some (OptionCodes_MarshalBinary [1, 3, 6])) o3 = Returns (o4, None) \<and>
    GetDHCPMessageType o4 = 3 \<and> GetSubnetMask o4 = Some [255, 255, 255, 0] \<and>
    GetRequestedIPAddress o4 = Some [192, 168, 1, 7] \<and> GetParameterRequestList o4 = Some [1, 3, 6] \<and> o4 12 = Some [104]"
proof -
  have "(12 :: OptionCode) \<notin> {OptionDHCPMessageType, OptionSubnetMask, OptionRequestedIPAddress, OptionParameterRequestList}"
    by simp
  with typed_options_roundtrip [of "[255, 255, 255, 0]" "[192, 168, 1, 7]" "[12 \<mapsto> [104]]" 3 "[]" "[]" "[1, 3, 6]"]
  show ?thesis by fastforce
qed

text \<open>
  C40. The lease time getter. If the call is evaluated before the variable, a four-byte option of
  \<open>n\<close> seconds gives \<open>n * 10^9\<close> nanoseconds, exactly: the 64-bit product cannot overflow. If the
  variable is read first, which the language allows, the getter returns 0 and no error.
\<close>

theorem GetIPAddressLeaseTime_value:
  assumes "opts OptionIPAddressLeaseTime = Some v" and "length v = 4"
  shows "sint (fst (GetIPAddressLeaseTime CallFirst opts)) = int (be_val v) * 10 ^ 9 \<and>
    snd (GetIPAddressLeaseTime CallFirst opts) = None \<and>
    GetIPAddressLeaseTime ReadFirst opts = (0, None)"
proof -
  have dec: "Uint32_UnmarshalBinary v = (ip_word v, None)"
    using assms(2) by (simp add: Uint32_UnmarshalBinary_def NewBigEndianBuffer_eq Read32.run_ok
        Uint32_of_def in_order_def FinError_def Len_def)
  have v: "be_val v < 2 ^ 32" using assms(2) be_val_bound [of v 32] by simp
  have "unat (ucast (ip_word v) * time_Second) = be_val v * 10 ^ 9"
    using v assms(2) by (simp add: unat_word_ariths time_Second_def unat_word_of_be unsigned_ucast_eq
        take_bit_eq_mod)
  then have "uint (ucast (ip_word v) * time_Second :: u64) = int (be_val v) * 10 ^ 9"
    by (simp only: uint_nat) simp
  then have "sint (ucast (ip_word v) * time_Second :: u64) = int (be_val v) * 10 ^ 9"
    using v by (simp add: sint_uint signed_take_bit_int_eq_self)
  with dec assms(1) show ?thesis by (simp add: GetIPAddressLeaseTime_def)
qed

theorem GetIPAddressLeaseTime_value_witness:
  "[51 \<mapsto> [0, 0, 14, 16]] OptionIPAddressLeaseTime = Some [0, 0, 14, 16 :: byte] \<and>
    sint (fst (GetIPAddressLeaseTime CallFirst [51 \<mapsto> [0, 0, 14, 16]])) = int (be_val [0, 0, 14, 16]) * 10 ^ 9 \<and>
    int (be_val [0, 0, 14, 16]) = 3600"
  using GetIPAddressLeaseTime_value [of "[51 \<mapsto> [0, 0, 14, 16]]" "[0, 0, 14, 16]"]
  by (simp add: be_val_def)

end
