(* ===== verification/LeasePool.thy ===== *)
theory LeasePool
  imports NetIP
begin

text \<open>
  The interface between the server and its allocator of addresses. A pool hands out addresses
  it does not hold yet and takes back those it holds; its clients record in a table who has
  which address. The lemmas about the table are proved once, for every pool.
\<close>

text \<open>
  A lease table is exact for a set of held addresses: no address is recorded twice, and the
  recorded addresses are the held ones, neither more nor fewer.
\<close>

definition lease_table :: "('m \<rightharpoonup> net_IP) \<Rightarrow> byte list set \<Rightarrow> bool" where
  "lease_table conns h \<longleftrightarrow> inj_on conns (dom conns) \<and> ran conns = Some ` h"

lemma lease_table_empty: "lease_table Map.empty {}"
  by (simp add: lease_table_def)

lemma lease_table_held: "lease_table conns h \<Longrightarrow> conns m = Some ip \<Longrightarrow> \<exists>b \<in> h. ip = Some b"
  by (auto simp: lease_table_def ran_def)

lemma lease_table_unique:
  "lease_table conns h \<Longrightarrow> conns m = Some ip \<Longrightarrow> conns m' = Some ip \<Longrightarrow> m = m'"
  by (auto simp: lease_table_def inj_on_def dom_def)

lemma lease_table_insert:
  assumes "lease_table conns h" and "conns m = None" and "b \<notin> h"
  shows "lease_table (conns(m \<mapsto> Some b)) (insert b h)"
proof -
  have new: "conns m' \<noteq> Some (Some b)" for m'
    using assms(1,3) by (auto dest: lease_table_held)
  have "inj_on (conns(m \<mapsto> Some b)) (dom (conns(m \<mapsto> Some b)))"
    using assms(1) new by (auto simp: lease_table_def inj_on_def dom_def)
  then show ?thesis using assms by (simp add: lease_table_def)
qed

lemma lease_table_remove:
  assumes "lease_table conns h" and "conns m = Some (Some b)"
  shows "lease_table (conns(m := None)) (h - {b})"
proof -
  have other: "m' = m" if "conns m' = Some (Some b)" for m'
    using lease_table_unique assms that by metis
  have "ran (conns(m := None)) = ran conns - {Some b}"
  proof (intro set_eqI iffI)
    fix ip
    assume "ip \<in> ran (conns(m := None))"
    then obtain m' where "m' \<noteq> m" "conns m' = Some ip" by (auto simp: ran_def split: if_splits)
    then show "ip \<in> ran conns - {Some b}" using other by (auto simp: ran_def)
  next
    fix ip
    assume "ip \<in> ran conns - {Some b}"
    then obtain m' where m': "conns m' = Some ip" "ip \<noteq> Some b" by (auto simp: ran_def)
    then have "(conns(m := None)) m' = Some ip" using assms(2) by auto
    then show "ip \<in> ran (conns(m := None))" by (rule ranI)
  qed
  moreover have "inj_on (conns(m := None)) (dom (conns(m := None)))"
    using assms(1) by (auto simp: lease_table_def inj_on_def dom_def)
  ultimately show ?thesis using assms(1) by (auto simp: lease_table_def)
qed

locale lease_pool =
  fixes pool_ok :: "'p \<Rightarrow> bool"
    and held_by :: "'p \<Rightarrow> byte list set"
    and pool_alloc :: "'p \<Rightarrow> (net_IP \<times> 'p) outcome"
    and pool_grab :: "'p \<Rightarrow> net_IP \<Rightarrow> (bool \<times> 'p) outcome"
    and pool_free :: "'p \<Rightarrow> net_IP \<Rightarrow> (go_error option \<times> 'p) outcome"
  assumes alloc_fresh: "pool_ok p \<Longrightarrow> pool_alloc p = Returns (Some b, p') \<Longrightarrow>
      pool_ok p' \<and> b \<notin> held_by p \<and> held_by p' = insert b (held_by p)"
    and alloc_full: "pool_ok p \<Longrightarrow> pool_alloc p = Returns (None, p') \<Longrightarrow> p' = p"
    and grab_fresh: "pool_ok p \<Longrightarrow> pool_grab p ip = Returns (True, p') \<Longrightarrow>
      \<exists>b. To4 ip = Some b \<and> pool_ok p' \<and> b \<notin> held_by p \<and> held_by p' = insert b (held_by p)"
    and grab_refused: "pool_ok p \<Longrightarrow> pool_grab p ip = Returns (False, p') \<Longrightarrow> p' = p"
    and free_held: "pool_ok p \<Longrightarrow> b \<in> held_by p \<Longrightarrow>
      \<exists>p'. pool_free p (Some b) = Returns (None, p') \<and> pool_ok p' \<and> held_by p' = held_by p - {b}"
begin

lemma lease_alloc:
  assumes "pool_ok p" and "lease_table conns (held_by p)" and "conns m = None"
    and "pool_alloc p = Returns (Some b, p')"
  shows "pool_ok p' \<and> lease_table (conns(m \<mapsto> Some b)) (held_by p')"
  using alloc_fresh [OF assms(1,4)] lease_table_insert [OF assms(2,3), of b] by auto

lemma lease_grab:
  assumes "pool_ok p" and "lease_table conns (held_by p)" and "conns m = None"
    and "pool_grab p (Some b) = Returns (True, p')" and "length b = 4"
  shows "pool_ok p' \<and> lease_table (conns(m \<mapsto> Some b)) (held_by p')"
  using grab_fresh [OF assms(1,4)] lease_table_insert [OF assms(2,3), of b] assms(5) by auto

lemma lease_free:
  assumes "pool_ok p" and "lease_table conns (held_by p)" and "conns m = Some ip"
  obtains b p' where "ip = Some b" and "b \<in> held_by p" and "pool_free p ip = Returns (None, p')"
    and "pool_ok p'" and "held_by p' = held_by p - {b}"
    and "lease_table (conns(m := None)) (held_by p')"
proof -
  obtain b where b: "ip = Some b" "b \<in> held_by p"
    using lease_table_held [OF assms(2,3)] by blast
  from free_held [OF assms(1) b(2)] obtain p' where
    "pool_free p (Some b) = Returns (None, p')" "pool_ok p'" "held_by p' = held_by p - {b}" by blast
  with b assms lease_table_remove [of conns "held_by p" m b] that show ?thesis by auto
qed

end

end
