(* ===== verification/IPAlloc.thy ===== *)
theory IPAlloc
  imports LeasePool
begin

text \<open>
  \<^verbatim>\<open>dhcp4server/ipalloc.go\<close>: the allocator of addresses of a subnet. The set of allocated
  addresses is the Go map \<^verbatim>\<open>map[uint32]struct{}\<close>.
\<close>

section \<open>The allocator\<close>

text \<open>The loop of \<open>nextIP\<close> with \<open>i + 1\<close> positions left to look at.\<close>

fun nextIP_from :: "nat \<Rightarrow> byte list \<Rightarrow> byte list" where
  "nextIP_from 0 ip = ip"
| "nextIP_from (Suc i) ip =
     (let ip = ip[i := ip ! i + 1] in if ip ! i \<noteq> 0 then ip else nextIP_from i ip)"

definition nextIP :: "byte list \<Rightarrow> byte list" where
  "nextIP ip = nextIP_from (length ip) ip"

record ipAllocator =
  subnet :: IPNet
  allocated :: "u32 set"

definition newIPAllocator :: "IPNet \<Rightarrow> ipAllocator" where
  "newIPAllocator sn = \<lparr>subnet = sn, allocated = {}\<rparr>"

text \<open>Reading four bytes of the nil slice panics.\<close>

definition ipToUint32 :: "net_IP \<Rightarrow> u32 outcome" where
  "ipToUint32 ip = (case To4 ip of
     None \<Rightarrow> Panics
   | Some b \<Rightarrow> Returns (Uint32_of LittleEndian b))"

definition usable :: "ipAllocator \<Rightarrow> net_IP \<Rightarrow> bool outcome" where
  "usable ia ip = obind (ipToUint32 ip) (\<lambda>k. Returns (k \<notin> allocated ia))"

text \<open>The second operand of \<^verbatim>\<open>||\<close> is only evaluated when the first one is false.\<close>

definition grab :: "ipAllocator \<Rightarrow> net_IP \<Rightarrow> (bool \<times> ipAllocator) outcome" where
  "grab ia ip =
     (if \<not> Contains (subnet ia) ip then Returns (False, ia)
      else obind (usable ia ip) (\<lambda>u.
        if \<not> u then Returns (False, ia)
        else obind (ipToUint32 ip) (\<lambda>k.
          Returns (True, ia\<lparr>allocated := insert k (allocated ia)\<rparr>))))"

text \<open>The loop that tries one address after the other; \<open>None\<close> when it never ends.\<close>

partial_function (option) alloc_loop ::
  "ipAllocator \<Rightarrow> byte list \<Rightarrow> (net_IP \<times> ipAllocator) outcome option" where
  "alloc_loop ia ip =
     (if Contains (subnet ia) (Some ip) then
        case usable ia (Some ip) of
          Panics \<Rightarrow> Some Panics
        | Diverges \<Rightarrow> Some Diverges
        | Returns u \<Rightarrow>
            if u then Some (obind (ipToUint32 (Some ip)) (\<lambda>k.
              Returns (Some ip, ia\<lparr>allocated := insert k (allocated ia)\<rparr>)))
            else alloc_loop ia (nextIP ip)
      else Some (Returns (None, ia)))"

definition alloc :: "ipAllocator \<Rightarrow> (net_IP \<times> ipAllocator) outcome" where
  "alloc ia = of_loop (alloc_loop ia
     (go_copy (zeros (length (IPNet_IP (subnet ia)))) (IPNet_IP (subnet ia))))"

definition free :: "ipAllocator \<Rightarrow> net_IP \<Rightarrow> (go_error option \<times> ipAllocator) outcome" where
  "free ia ip = obind (usable ia ip) (\<lambda>u.
     if u then Returns (Some (CannotFreeUnallocated ip), ia)
     else obind (ipToUint32 ip) (\<lambda>k.
       Returns (None, ia\<lparr>allocated := allocated ia - {k}\<rparr>)))"

section \<open>nextIP is the successor\<close>

lemma byte_carry: "b + 1 = 0 \<Longrightarrow> unat b = 255" for b :: byte
proof -
  assume "b + 1 = 0"
  then have "(unat b + 1) mod 256 = 0"
    using unat_word_ariths(1) [of b 1] by simp
  then show ?thesis using unat_byte_less [of b] by presburger
qed

lemma byte_no_carry: "b + 1 \<noteq> 0 \<Longrightarrow> unat (b + 1) = unat b + 1" for b :: byte
  using unatSuc [of b] by (simp add: add.commute)

lemma carry_mod: "(v * 256 + 256) mod (n * 256) = ((v + 1) mod n) * 256" for v n :: nat
  by (metis mult_mod_left distrib_right mult_1)

lemma nextIP_from_append:
  "\<exists>zs. nextIP_from (length xs) (xs @ ys) = zs @ ys \<and> length zs = length xs \<and>
     be_val zs = (be_val xs + 1) mod 256 ^ length xs"
proof (induction xs arbitrary: ys rule: rev_induct)
  case (snoc b xs)
  show ?case
  proof (cases "b + 1 = 0")
    case True
    obtain zs where zs: "nextIP_from (length xs) (xs @ 0 # ys) = zs @ 0 # ys" "length zs = length xs"
      "be_val zs = (be_val xs + 1) mod 256 ^ length xs"
      using snoc.IH [of "0 # ys"] by blast
    have "be_val (zs @ [0]) = (be_val (xs @ [b]) + 1) mod 256 ^ length (xs @ [b])"
      using zs(3) carry_mod [of "be_val xs" "256 ^ length xs"] byte_carry [OF True]
      by (simp add: ac_simps)
    with zs True show ?thesis by (intro exI [of _ "zs @ [0]"]) (simp add: nth_append)
  next
    case False
    have "be_val (xs @ [b + 1]) < 256 ^ length (xs @ [b + 1])" by (rule be_val_less)
    with False show ?thesis
      by (intro exI [of _ "xs @ [b + 1]"]) (simp add: nth_append byte_no_carry)
  qed
qed simp

lemma nextIP_props:
  "length (nextIP ip) = length ip" "be_val (nextIP ip) = (be_val ip + 1) mod 256 ^ length ip"
  using nextIP_from_append [of ip "[]"] by (auto simp: nextIP_def)

lemma length_funpow_nextIP [simp]: "length ((nextIP ^^ k) ip) = length ip"
  by (induction k) (simp_all add: nextIP_props)

lemma ip_word_nextIP: "length b = 4 \<Longrightarrow> ip_word (nextIP b) = ip_word b + 1"
  by (simp add: word_unat_eq_iff unat_word_of_be nextIP_props unat_word_ariths)

lemma ip_word_funpow: "length b = 4 \<Longrightarrow> ip_word ((nextIP ^^ k) b) = ip_word b + of_nat k"
  by (induction k) (simp_all add: ip_word_nextIP)

text \<open>From any address, stepping reaches every other one.\<close>

lemma nextIP_reaches:
  "length b = 4 \<Longrightarrow> length b' = 4 \<Longrightarrow> (nextIP ^^ unat (ip_word b' - ip_word b)) b = b'"
  by (subst ip_word_inject [symmetric]) (simp_all add: ip_word_funpow)

section \<open>Keys of addresses\<close>

definition key :: "byte list \<Rightarrow> u32" where
  "key b = Uint32_of LittleEndian b"

lemma key_inject: "length a = 4 \<Longrightarrow> length b = 4 \<Longrightarrow> key a = key b \<longleftrightarrow> a = b"
  using ip_word_inject [of "rev a" "rev b"] by (simp add: key_def Uint32_of_def in_order_def)

lemma ipToUint32_4: "length b = 4 \<Longrightarrow> ipToUint32 (Some b) = Returns (key b)"
  by (simp add: ipToUint32_def key_def)

lemma usable_4: "length b = 4 \<Longrightarrow> usable ia (Some b) = Returns (key b \<notin> allocated ia)"
  by (simp add: usable_def ipToUint32_4)

lemma ipToUint32_To4: "To4 ip = Some b \<Longrightarrow> ipToUint32 ip = Returns (key b)"
  by (simp add: ipToUint32_def key_def)

lemma usable_To4: "To4 ip = Some b \<Longrightarrow> usable ia ip = Returns (key b \<notin> allocated ia)"
  by (simp add: usable_def ipToUint32_To4)

text \<open>The addresses an allocator holds.\<close>

definition held :: "ipAllocator \<Rightarrow> byte list set" where
  "held ia = {b. length b = 4 \<and> key b \<in> allocated ia}"

lemma held_insert:
  "length b = 4 \<Longrightarrow> held (ia\<lparr>allocated := insert (key b) (allocated ia)\<rparr>) = insert b (held ia)"
  by (auto simp: held_def key_inject)

lemma held_remove:
  "length b = 4 \<Longrightarrow> held (ia\<lparr>allocated := allocated ia - {key b}\<rparr>) = held ia - {b}"
  by (auto simp: held_def key_inject)

section \<open>The search\<close>

definition blocked :: "ipAllocator \<Rightarrow> byte list \<Rightarrow> bool" where
  "blocked ia b \<longleftrightarrow> Contains (subnet ia) (Some b) \<and> b \<in> held ia"

lemma alloc_loop_unfold:
  "length ip = 4 \<Longrightarrow> alloc_loop ia ip =
    (if \<not> Contains (subnet ia) (Some ip) then Some (Returns (None, ia))
     else if ip \<notin> held ia then
       Some (Returns (Some ip, ia\<lparr>allocated := insert (key ip) (allocated ia)\<rparr>))
     else alloc_loop ia (nextIP ip))"
  by (subst alloc_loop.simps) (simp add: usable_4 ipToUint32_4 held_def)

lemma alloc_loop_skip:
  "length ip = 4 \<Longrightarrow> (\<And>j. j < k \<Longrightarrow> blocked ia ((nextIP ^^ j) ip)) \<Longrightarrow>
    alloc_loop ia ip = alloc_loop ia ((nextIP ^^ k) ip)"
proof (induction k arbitrary: ip)
  case (Suc k)
  have "blocked ia ip" using Suc.prems(2) [of 0] by simp
  then have "alloc_loop ia ip = alloc_loop ia (nextIP ip)"
    using Suc.prems(1) by (simp add: alloc_loop_unfold [of ip] blocked_def)
  also have "\<dots> = alloc_loop ia ((nextIP ^^ k) (nextIP ip))"
  proof (rule Suc.IH)
    show "length (nextIP ip) = 4" using Suc.prems(1) by (simp add: nextIP_props)
    show "blocked ia ((nextIP ^^ j) (nextIP ip))" if "j < k" for j
      using Suc.prems(2) [of "Suc j"] that by (simp add: funpow_swap1)
  qed
  finally show ?case by (simp add: funpow_swap1)
qed simp

lemma alloc_loop_diverges:
  assumes "length ip = 4" and "\<And>k. blocked ia ((nextIP ^^ k) ip)"
  shows "alloc_loop ia ip = None"
proof (rule ccontr)
  assume "alloc_loop ia ip \<noteq> None"
  then obtain r where ret: "alloc_loop ia ip = Some r" by auto
  have "length ip = 4 \<longrightarrow> \<not> (\<forall>k. blocked ia ((nextIP ^^ k) ip))"
  proof (rule alloc_loop.raw_induct
      [where P = "\<lambda>ia ip r. length ip = 4 \<longrightarrow> \<not> (\<forall>k. blocked ia ((nextIP ^^ k) ip))", OF _ ret],
      intro impI notI)
    fix f ia ip r
    assume IH: "\<And>ia ip r. f ia ip = Some r \<Longrightarrow>
        length ip = 4 \<longrightarrow> \<not> (\<forall>k. blocked ia ((nextIP ^^ k) ip))"
      and eq: "(if Contains (subnet ia) (Some ip) then
        case usable ia (Some ip) of
          Returns u \<Rightarrow> if u then Some (obind (ipToUint32 (Some ip)) (\<lambda>k.
              Returns (Some ip, ia\<lparr>allocated := insert k (allocated ia)\<rparr>)))
            else f ia (nextIP ip)
        | Panics \<Rightarrow> Some Panics
        | Diverges \<Rightarrow> Some Diverges
      else Some (Returns (None, ia))) = Some r"
      and len: "length ip = 4" and all: "\<forall>k. blocked ia ((nextIP ^^ k) ip)"
    have "blocked ia ip" using all [rule_format, of 0] by simp
    with eq len have "f ia (nextIP ip) = Some r"
      by (simp add: usable_4 blocked_def held_def)
    moreover have "\<forall>k. blocked ia ((nextIP ^^ k) (nextIP ip))"
      using all by (metis funpow_swap1 funpow.simps(2) comp_apply)
    ultimately show False using IH len nextIP_props(1) by metis
  qed
  with assms show False by blast
qed

section \<open>What alloc, grab and free do\<close>

text \<open>An IPv4 allocator: the subnet is an IPv4 network.\<close>

definition ipv4_alloc :: "ipAllocator \<Rightarrow> bool" where
  "ipv4_alloc ia \<longleftrightarrow> ipv4_net (subnet ia)"

abbreviation first_ip :: "ipAllocator \<Rightarrow> byte list" where
  "first_ip ia \<equiv> IPNet_IP (subnet ia)"

lemma alloc_eq: "ipv4_alloc ia \<Longrightarrow> alloc ia = of_loop (alloc_loop ia (first_ip ia))"
  by (simp add: alloc_def go_copy_exact)

text \<open>The search stops at the first address that is outside the subnet or free.\<close>

lemma alloc_stops:
  assumes ia: "ipv4_alloc ia" and ex: "\<not> blocked ia ((nextIP ^^ k) (first_ip ia))"
  obtains n where "n \<le> k" and "\<And>j. j < n \<Longrightarrow> blocked ia ((nextIP ^^ j) (first_ip ia))"
    and "\<not> blocked ia ((nextIP ^^ n) (first_ip ia))"
    and "alloc ia = (let b = (nextIP ^^ n) (first_ip ia) in
      if Contains (subnet ia) (Some b)
      then Returns (Some b, ia\<lparr>allocated := insert (key b) (allocated ia)\<rparr>)
      else Returns (None, ia))"
proof -
  define n where "n = (LEAST n. \<not> blocked ia ((nextIP ^^ n) (first_ip ia)))"
  have n: "\<not> blocked ia ((nextIP ^^ n) (first_ip ia))" "n \<le> k"
    and less: "\<And>j. j < n \<Longrightarrow> blocked ia ((nextIP ^^ j) (first_ip ia))"
    unfolding n_def using LeastI [where P = "\<lambda>n. \<not> blocked ia ((nextIP ^^ n) (first_ip ia))", OF ex] ex
    by (auto intro: Least_le dest: not_less_Least)
  have len: "length (first_ip ia) = 4" using ia by (simp add: ipv4_alloc_def ipv4_net_def)
  have "alloc ia = of_loop (alloc_loop ia ((nextIP ^^ n) (first_ip ia)))"
    using alloc_loop_skip [OF len less] by (simp add: alloc_eq [OF ia])
  with that [OF n(2) less n(1)] n(1) len show ?thesis
    by (simp add: alloc_loop_unfold blocked_def Let_def)
qed

lemma alloc_cases:
  assumes "ipv4_alloc ia"
  obtains (forever) "alloc ia = Diverges" "\<And>b. length b = 4 \<Longrightarrow> blocked ia b"
  | (stops) n where "\<And>j. j < n \<Longrightarrow> blocked ia ((nextIP ^^ j) (first_ip ia))"
    and "\<not> blocked ia ((nextIP ^^ n) (first_ip ia))"
    and "alloc ia = (let b = (nextIP ^^ n) (first_ip ia) in
      if Contains (subnet ia) (Some b)
      then Returns (Some b, ia\<lparr>allocated := insert (key b) (allocated ia)\<rparr>)
      else Returns (None, ia))"
proof (cases "\<forall>k. blocked ia ((nextIP ^^ k) (first_ip ia))")
  case True
  have len: "length (first_ip ia) = 4" using assms by (simp add: ipv4_alloc_def ipv4_net_def)
  have "alloc ia = Diverges"
    using alloc_loop_diverges [OF len] True by (simp add: alloc_eq [OF assms])
  moreover have "blocked ia b" if "length b = 4" for b
    using True nextIP_reaches [OF len that] by metis
  ultimately show ?thesis by (rule forever)
next
  case False
  then obtain k where "\<not> blocked ia ((nextIP ^^ k) (first_ip ia))" by blast
  from alloc_stops [OF assms this] show ?thesis by (metis stops)
qed

lemma alloc_diverges_iff:
  assumes "ipv4_alloc ia"
  shows "alloc ia = Diverges \<longleftrightarrow> (\<forall>b. length b = 4 \<longrightarrow> blocked ia b)"
  using assms
proof (cases rule: alloc_cases)
  case (stops n)
  have "length ((nextIP ^^ n) (first_ip ia)) = 4"
    using assms by (simp add: ipv4_alloc_def ipv4_net_def)
  with stops(2) have "\<not> (\<forall>b. length b = 4 \<longrightarrow> blocked ia b)" by blast
  moreover have "alloc ia \<noteq> Diverges" using stops(3) by (simp add: Let_def)
  ultimately show ?thesis by blast
qed auto

lemma alloc_no_panic: "ipv4_alloc ia \<Longrightarrow> alloc ia \<noteq> Panics"
  by (rule alloc_cases) (auto simp: Let_def split: if_splits)

lemma alloc_Some:
  assumes "ipv4_alloc ia" and "alloc ia = Returns (Some b, ia')"
  shows "length b = 4 \<and> Contains (subnet ia) (Some b) \<and> b \<notin> held ia \<and>
    held ia' = insert b (held ia) \<and> subnet ia' = subnet ia"
  using assms(1)
proof (cases rule: alloc_cases)
  case (stops n)
  then show ?thesis
    using assms by (auto simp: Let_def blocked_def held_insert ipv4_alloc_def ipv4_net_def split: if_splits)
qed (use assms in simp)

lemma alloc_None: "ipv4_alloc ia \<Longrightarrow> alloc ia = Returns (None, ia') \<Longrightarrow> ia' = ia"
  by (rule alloc_cases [of ia]) (auto simp: Let_def split: if_splits)

lemma grab_4:
  assumes "ipv4_alloc ia" and "To4 ip = Some b"
  shows "grab ia ip = (if Contains (subnet ia) ip \<and> b \<notin> held ia
    then Returns (True, ia\<lparr>allocated := insert (key b) (allocated ia)\<rparr>)
    else Returns (False, ia))"
  using assms To4_length [OF assms(2)]
  by (simp add: grab_def usable_To4 ipToUint32_To4 held_def)

lemma grab_not_4:
  assumes "ipv4_alloc ia" and "To4 ip = None"
  shows "grab ia ip = Returns (False, ia)"
  using assms Contains_ipv4_To4 [of "subnet ia" ip] by (auto simp: grab_def ipv4_alloc_def)

lemma free_4:
  assumes "length b = 4"
  shows "free ia (Some b) = (if b \<in> held ia then Returns (None, ia\<lparr>allocated := allocated ia - {key b}\<rparr>)
    else Returns (Some (CannotFreeUnallocated (Some b)), ia))"
  using assms by (simp add: free_def usable_4 ipToUint32_4 held_def)

section \<open>In a network in CIDR form\<close>

lemma be_val_funpow:
  assumes "length b = 4" and "be_val b + j < 2 ^ 32"
  shows "be_val ((nextIP ^^ j) b) = be_val b + j"
proof -
  have "unat (ip_word b + of_nat j) = be_val b + j"
    using assms by (simp add: unat_word_ariths be_val_ip_word unat_of_nat take_bit_eq_mod)
  then show ?thesis using assms(1) by (simp add: be_val_ip_word ip_word_funpow)
qed

lemma cidr_range: "cidr_net k n \<Longrightarrow> be_val (IPNet_IP n) + 2 ^ k \<le> 2 ^ 32"
proof -
  assume n: "cidr_net k n"
  then obtain q where q: "be_val (IPNet_IP n) = 2 ^ k * q" by (auto simp: cidr_net_def)
  have "be_val (IPNet_IP n) < 2 ^ 32"
    using n be_val_bound [of "IPNet_IP n" 32] by (simp add: cidr_net_def ipv4_net_def)
  moreover have split: "(2::nat) ^ 32 = 2 ^ k * 2 ^ (32 - k)"
    using n by (simp add: cidr_net_def flip: power_add)
  ultimately have "2 ^ k * q < 2 ^ k * 2 ^ (32 - k)" by (simp only: q)
  then have "q < 2 ^ (32 - k)" by simp
  then have "2 ^ k * Suc q \<le> (2::nat) ^ k * 2 ^ (32 - k)" by (intro mult_left_mono) auto
  then show ?thesis by (simp only: q split mult_Suc_right add.commute)
qed

text \<open>The \<open>j\<close>-th address tried is the \<open>j\<close>-th of the subnet, and all of them are reached.\<close>

lemma cidr_nth:
  assumes "cidr_net k (subnet ia)" and "length b = 4" and "Contains (subnet ia) (Some b)"
  shows "be_val b - be_val (first_ip ia) < 2 ^ k"
    and "(nextIP ^^ (be_val b - be_val (first_ip ia))) (first_ip ia) = b"
proof -
  let ?i = "be_val (first_ip ia)"
  have c: "?i \<le> be_val b" "be_val b < ?i + 2 ^ k" using assms by (simp_all add: cidr_Contains)
  then show "be_val b - ?i < 2 ^ k" by simp
  have len: "length (first_ip ia) = 4" using assms(1) by (simp add: cidr_net_def ipv4_net_def)
  have "be_val b < 2 ^ 32" using assms(2) be_val_bound [of b 32] by simp
  with c len have "be_val ((nextIP ^^ (be_val b - ?i)) (first_ip ia)) = be_val b"
    by (simp add: be_val_funpow)
  with len assms(2) show "(nextIP ^^ (be_val b - ?i)) (first_ip ia) = b"
    by (intro be_val_inject) simp_all
qed

lemma cidr_inside:
  assumes "cidr_net k (subnet ia)" and "j < 2 ^ k"
  shows "be_val ((nextIP ^^ j) (first_ip ia)) = be_val (first_ip ia) + j"
    and "Contains (subnet ia) (Some ((nextIP ^^ j) (first_ip ia)))"
proof -
  have len: "length (first_ip ia) = 4" using assms(1) by (simp add: cidr_net_def ipv4_net_def)
  with cidr_range [OF assms(1)] assms(2)
  show v: "be_val ((nextIP ^^ j) (first_ip ia)) = be_val (first_ip ia) + j"
    by (simp add: be_val_funpow)
  with assms len show "Contains (subnet ia) (Some ((nextIP ^^ j) (first_ip ia)))"
    by (simp add: cidr_Contains)
qed

lemma cidr_ipv4_alloc: "cidr_net k (subnet ia) \<Longrightarrow> ipv4_alloc ia"
  by (simp add: cidr_net_def ipv4_alloc_def)

lemma alloc_least:
  assumes "cidr_net k (subnet ia)" and "alloc ia = Returns (Some b, ia')"
    and "length c = 4" and "Contains (subnet ia) (Some c)" and "be_val c < be_val b"
  shows "c \<in> held ia"
  using cidr_ipv4_alloc [OF assms(1)]
proof (cases rule: alloc_cases)
  case (stops n)
  note b = alloc_Some [OF cidr_ipv4_alloc [OF assms(1)] assms(2)]
  have bn: "b = (nextIP ^^ n) (first_ip ia)"
    using stops(3) assms(2) by (auto simp: Let_def split: if_splits)
  let ?jb = "be_val b - be_val (first_ip ia)" and ?jc = "be_val c - be_val (first_ip ia)"
  have "\<not> ?jb < n"
    using stops(1) [of ?jb] cidr_nth(2) [OF assms(1), of b] b by (auto simp: blocked_def)
  then have "n < 2 ^ k" using cidr_nth(1) [OF assms(1), of b] b by linarith
  then have "be_val b = be_val (first_ip ia) + n" using cidr_inside(1) [OF assms(1)] bn by simp
  then have "?jc < n"
    using assms(5) cidr_Contains [OF assms(1,3)] assms(4) by linarith
  from stops(1) [OF this] cidr_nth(2) [OF assms(1,3,4)] show ?thesis by (simp add: blocked_def)
qed (use assms in simp)

lemma alloc_exhausted:
  assumes "cidr_net k (subnet ia)" and "alloc ia = Returns (None, ia')"
    and "length b = 4" and "Contains (subnet ia) (Some b)"
  shows "b \<in> held ia"
  using cidr_ipv4_alloc [OF assms(1)]
proof (cases rule: alloc_cases)
  case (stops n)
  then have out: "\<not> Contains (subnet ia) (Some ((nextIP ^^ n) (first_ip ia)))"
    using assms(2) by (auto simp: Let_def split: if_splits)
  let ?j = "be_val b - be_val (first_ip ia)"
  have "\<not> n < 2 ^ k" using cidr_inside(2) [OF assms(1)] out by blast
  with cidr_nth(1) [OF assms(1,3,4)] have "?j < n" by linarith
  from stops(1) [OF this] cidr_nth(2) [OF assms(1,3,4)] show ?thesis by (simp add: blocked_def)
qed (use assms in simp)

section \<open>The allocator is a pool\<close>

text \<open>
  All addresses an IPv4 allocator holds lie in its subnet: they came from \<open>alloc\<close> or \<open>grab\<close>.
\<close>

definition pool_inv :: "ipAllocator \<Rightarrow> bool" where
  "pool_inv ia \<longleftrightarrow> ipv4_alloc ia \<and> (\<forall>b \<in> held ia. Contains (subnet ia) (Some b))"

lemma Contains_To4: "To4 ip = Some b \<Longrightarrow> Contains n ip \<longleftrightarrow> Contains n (Some b)"
  using To4_length [of ip b] by (simp add: Contains_def)

lemma pool_inv_insert:
  assumes "pool_inv ia" and "length b = 4" and "Contains (subnet ia) (Some b)"
  shows "pool_inv (ia\<lparr>allocated := insert (key b) (allocated ia)\<rparr>)"
  using assms by (auto simp: pool_inv_def ipv4_alloc_def held_insert)

lemma held_length: "b \<in> held ia \<Longrightarrow> length b = 4"
  by (simp add: held_def)

lemma alloc_pool_inv:
  assumes "pool_inv ia" and "alloc ia = Returns (Some b, ia')"
  shows "pool_inv ia'"
proof -
  have "ipv4_alloc ia" using assms(1) by (simp add: pool_inv_def)
  from alloc_Some [OF this assms(2)] assms(1) show ?thesis
    by (auto simp: pool_inv_def ipv4_alloc_def)
qed

lemma grab_True:
  assumes "pool_inv ia" and "grab ia ip = Returns (True, ia')"
  obtains b where "To4 ip = Some b" and "Contains (subnet ia) (Some b)" and "b \<notin> held ia"
    and "held ia' = insert b (held ia)" and "subnet ia' = subnet ia" and "pool_inv ia'"
proof -
  have ia: "ipv4_alloc ia" using assms(1) by (simp add: pool_inv_def)
  obtain b where b: "To4 ip = Some b"
    using grab_not_4 [OF ia] assms(2) by (cases "To4 ip") auto
  note len = To4_length [OF b]
  from assms(2) have c: "Contains (subnet ia) (Some b)" "b \<notin> held ia"
    and ia': "ia' = ia\<lparr>allocated := insert (key b) (allocated ia)\<rparr>"
    by (auto simp: grab_4 [OF ia b] Contains_To4 [OF b] split: if_splits)
  show ?thesis
    by (rule that [OF b c]) (use ia' len held_insert pool_inv_insert [OF assms(1) len c(1)] in auto)
qed

interpretation pool: lease_pool pool_inv held alloc grab free
proof unfold_locales
  fix p p' b
  assume p: "pool_inv p" and a: "alloc p = Returns (Some b, p')"
  then show "pool_inv p' \<and> b \<notin> held p \<and> held p' = insert b (held p)"
    using alloc_Some [of p b p'] alloc_pool_inv [OF p a] by (simp add: pool_inv_def)
next
  fix p p'
  assume "pool_inv p" "alloc p = Returns (None, p')"
  then show "p' = p" by (simp add: pool_inv_def alloc_None)
next
  fix p ip p'
  assume "pool_inv p" "grab p ip = Returns (True, p')"
  then show "\<exists>b. To4 ip = Some b \<and> pool_inv p' \<and> b \<notin> held p \<and> held p' = insert b (held p)"
    by (rule grab_True) blast
next
  fix p ip p'
  assume p: "pool_inv p" and g: "grab p ip = Returns (False, p')"
  have "ipv4_alloc p" using p by (simp add: pool_inv_def)
  then show "p' = p"
    using g by (cases "To4 ip") (auto simp: grab_not_4 grab_4 split: if_splits)
next
  fix p b
  assume p: "pool_inv p" and b: "b \<in> held p"
  then show "\<exists>p'. free p (Some b) = Returns (None, p') \<and> pool_inv p' \<and> held p' = held p - {b}"
    by (auto simp: free_4 held_length held_remove pool_inv_def ipv4_alloc_def)
qed

section \<open>Properties\<close>

text \<open>
  \<open>nextIP\<close> adds one to the address as a number in network byte order, and wraps around at the
  end of the address space; the number of bytes stays the same.
\<close>

lemma nextIP_successor:
  "length (nextIP ip) = length ip \<and> be_val (nextIP ip) = (be_val ip + 1) mod 256 ^ length ip"
  by (simp add: nextIP_props)

text \<open>
  C37. In a subnet in CIDR form with a free address, \<open>alloc\<close> returns the lowest free one and marks
  exactly that one as allocated.
\<close>

theorem alloc_lowest_free:
  assumes "cidr_net k (subnet ia)"
    and "length f = 4" and "Contains (subnet ia) (Some f)" and "f \<notin> held ia"
  shows "\<exists>b ia'. alloc ia = Returns (Some b, ia') \<and> length b = 4 \<and> Contains (subnet ia) (Some b) \<and>
    b \<notin> held ia \<and> held ia' = insert b (held ia) \<and> subnet ia' = subnet ia \<and>
    (\<forall>c. length c = 4 \<and> Contains (subnet ia) (Some c) \<and> c \<notin> held ia \<longrightarrow> be_val b \<le> be_val c)"
proof -
  note ia = cidr_ipv4_alloc [OF assms(1)]
  have "alloc ia \<noteq> Diverges" using alloc_diverges_iff [OF ia] assms by (auto simp: blocked_def)
  then obtain r ia' where r: "alloc ia = Returns (r, ia')"
    using alloc_no_panic [OF ia] by (cases "alloc ia") auto
  obtain b where b: "r = Some b"
    using alloc_exhausted [OF assms(1) _ assms(2,3)] assms(4) r by (cases r) auto
  with r have a: "alloc ia = Returns (Some b, ia')" by simp
  have "be_val b \<le> be_val c" if "length c = 4" "Contains (subnet ia) (Some c)" "c \<notin> held ia" for c
    using alloc_least [OF assms(1) a that(1,2)] that(3) by (meson not_le)
  with alloc_Some [OF ia a] a show ?thesis by blast
qed

theorem alloc_lowest_free_witness:
  "\<exists>b ia'. alloc (newIPAllocator \<lparr>IPNet_IP = [192, 168, 1, 0], IPNet_Mask = [255, 255, 255, 0]\<rparr>) =
    Returns (Some b, ia') \<and> length b = 4 \<and> b \<notin> held (newIPAllocator
      \<lparr>IPNet_IP = [192, 168, 1, 0], IPNet_Mask = [255, 255, 255, 0]\<rparr>)"
proof -
  let ?n = "\<lparr>IPNet_IP = [192, 168, 1, 0], IPNet_Mask = [255, 255, 255, 0]\<rparr>"
  let ?ia = "newIPAllocator ?n"
  have n: "cidr_net 8 (subnet ?ia)"
    by (simp add: cidr_net_def ipv4_net_def newIPAllocator_def be_val_def mask_eq_decr_exp)
  have c: "Contains (subnet ?ia) (Some [192, 168, 1, 0])"
    by (simp add: newIPAllocator_def Contains_ipv4 ipv4_net_def)
  have f: "[192, 168, 1, 0] \<notin> held ?ia" by (simp add: held_def newIPAllocator_def)
  from alloc_lowest_free [OF n _ c f] show ?thesis by auto
qed

text \<open>
  C38. \<open>alloc\<close> never panics on an IPv4 subnet. It returns unless every IPv4 address there is belongs
  to the subnet and is allocated; only then does it search forever. When it returns nil, nothing
  has changed, and in a subnet in CIDR form every address is in use.
\<close>

theorem alloc_termination:
  assumes "ipv4_net (subnet ia)"
  shows "alloc ia \<noteq> Panics \<and>
    (alloc ia = Diverges \<longleftrightarrow> (\<forall>b. length b = 4 \<longrightarrow> Contains (subnet ia) (Some b) \<and> b \<in> held ia)) \<and>
    (\<forall>ia'. alloc ia = Returns (None, ia') \<longrightarrow> ia' = ia \<and>
      (\<forall>k b. cidr_net k (subnet ia) \<and> length b = 4 \<and> Contains (subnet ia) (Some b) \<longrightarrow> b \<in> held ia))"
proof -
  have ia: "ipv4_alloc ia" using assms by (simp add: ipv4_alloc_def)
  show ?thesis
    using alloc_no_panic [OF ia] alloc_diverges_iff [OF ia] alloc_None [OF ia] alloc_exhausted [of _ ia]
    unfolding blocked_def by blast
qed

theorem alloc_termination_witness:
  "ipv4_net (subnet (newIPAllocator \<lparr>IPNet_IP = [10, 0, 0, 0], IPNet_Mask = [255, 0, 0, 0]\<rparr>)) \<and>
    alloc (newIPAllocator \<lparr>IPNet_IP = [10, 0, 0, 0], IPNet_Mask = [255, 0, 0, 0]\<rparr>) \<noteq> Panics"
proof -
  have n: "ipv4_net (subnet (newIPAllocator \<lparr>IPNet_IP = [10, 0, 0, 0], IPNet_Mask = [255, 0, 0, 0]\<rparr>))"
    by (simp add: newIPAllocator_def ipv4_net_def)
  with alloc_termination [OF n] show ?thesis by blast
qed

text \<open>
  \<open>grab\<close> on an IPv4 subnet never panics; it succeeds exactly for an IPv4 address of the subnet
  that is free, in either of its forms, and then marks exactly that address; otherwise nothing
  changes.
\<close>

lemma grab_spec:
  assumes "ipv4_net (subnet ia)"
  shows "\<exists>ok ia'. grab ia ip = Returns (ok, ia') \<and>
    (ok \<longleftrightarrow> (\<exists>b. To4 ip = Some b \<and> Contains (subnet ia) (Some b) \<and> b \<notin> held ia)) \<and>
    subnet ia' = subnet ia \<and> held ia' = held ia \<union> (if ok then {the (To4 ip)} else {})"
proof -
  have ia: "ipv4_alloc ia" using assms by (simp add: ipv4_alloc_def)
  show ?thesis
  proof (cases "To4 ip")
    case None
    with grab_not_4 [OF ia] show ?thesis by auto
  next
    case (Some b)
    from grab_4 [OF ia Some] held_insert [OF To4_length [OF Some], of ia] Some show ?thesis
      by (auto simp: Contains_To4 [OF Some])
  qed
qed

text \<open>
  Freeing undoes an allocation: freeing the address that \<open>alloc\<close> has just returned succeeds and
  gives back the allocator as it was, and freeing it again is an error that changes nothing.
\<close>

lemma free_undoes_alloc:
  assumes "ipv4_net (subnet ia)" and "alloc ia = Returns (Some b, ia')"
  shows "free ia' (Some b) = Returns (None, ia) \<and>
    free ia (Some b) = Returns (Some (CannotFreeUnallocated (Some b)), ia)"
proof -
  have ia: "ipv4_alloc ia" using assms(1) by (simp add: ipv4_alloc_def)
  note b = alloc_Some [OF ia assms(2)]
  have ia': "ia' = ia\<lparr>allocated := insert (key b) (allocated ia)\<rparr>"
    by (rule alloc_cases [OF ia]) (use assms(2) in \<open>auto simp: Let_def split: if_splits\<close>)
  have "key b \<notin> allocated ia" using b by (simp add: held_def)
  with b show ?thesis by (simp add: free_4) (simp add: ia')
qed

end
