(* ===== verification/Server.thy ===== *)
theory Server
  imports OptGet IPAlloc
begin

text \<open>
  \<^verbatim>\<open>dhcp4server/server.go\<close>: the DHCP server. The connection \<open>net.PacketConn\<close> is the
  environment: each input of the model is the result of one \<open>ReadFrom\<close> call, together with
  the answer that \<open>WriteTo\<close> would give while that input is handled. Log output is not
  modelled. No slice the server keeps is written to after it is stored, so sharing of the
  address slices between the lease table and the replies is not observable.
\<close>

section \<open>State\<close>

type_synonym macAddr = "byte list"

definition maxMessageSize :: nat where "maxMessageSize = 1500"

record Server =
  srv_ip :: net_IP
  ips :: ipAllocator
  conns :: "macAddr \<rightharpoonup> net_IP"
  sname :: "byte list"
  filename :: "byte list"

definition New :: "net_IP \<Rightarrow> IPNet \<Rightarrow> byte list \<Rightarrow> byte list \<Rightarrow> Server" where
  "New ip sn name file = \<lparr>srv_ip = To4 ip, ips = newIPAllocator sn, conns = Map.empty,
     sname = name, filename = file\<rparr>"

section \<open>Operations\<close>

text \<open>
  The errors of \<open>Options.Add\<close> are dropped. The conversion \<open>dhcp4opts.IP(s.ip)\<close> of a nil address
  makes its \<open>MarshalBinary\<close> panic.
\<close>

definition responsePacket :: "Server \<Rightarrow> Packet \<Rightarrow> DHCPMessageType \<Rightarrow> Packet outcome" where
  "responsePacket s request typ =
    (let packet = NewPacket BootReply;
         packet = packet\<lparr>HType := HType request\<rparr>;
         packet = packet\<lparr>TransactionID := TransactionID request\<rparr>;
         packet = packet\<lparr>CHAddr := CHAddr request\<rparr>;
         packet = packet\<lparr>Broadcast := Broadcast request\<rparr>;
         packet = packet\<lparr>GIAddr := GIAddr request\<rparr> in
     obind (Options_Add OptionDHCPMessageType (Some (DHCPMessageType_MarshalBinary typ)) (Opts packet))
       (\<lambda>(opts, _).
     obind (Options_Add OptionServerIdentifier (Some (IP_MarshalBinary [] (srv_ip s))) opts)
       (\<lambda>(opts, _).
     let packet = packet\<lparr>SIAddr := srv_ip s\<rparr> in
     obind (Options_Add OptionMaximumDHCPMessageSize
         (Some (Uint16_MarshalBinary (of_nat maxMessageSize))) opts)
       (\<lambda>(opts, _). Returns (packet\<lparr>Opts := opts\<rparr>)))))"

definition getMac :: "byte list \<Rightarrow> macAddr" where
  "getMac haddr = go_copy (zeros 16) haddr"

definition getIP :: "Server \<Rightarrow> byte list \<Rightarrow> net_IP" where
  "getIP s haddr = (case conns s (getMac haddr) of
     Some ip \<Rightarrow> ip
   | None \<Rightarrow> None)"

definition newIP :: "Server \<Rightarrow> byte list \<Rightarrow> (net_IP \<times> Server) outcome" where
  "newIP s haddr = (let mac = getMac haddr in
     case conns s mac of
       Some ip \<Rightarrow> Returns (ip, s)
     | None \<Rightarrow> obind (alloc (ips s)) (\<lambda>(ip, ia).
         let s = s\<lparr>ips := ia\<rparr> in
         if ip = None then Returns (None, s)
         else Returns (ip, s\<lparr>conns := (conns s)(mac \<mapsto> ip)\<rparr>)))"

definition grabIP :: "Server \<Rightarrow> byte list \<Rightarrow> net_IP \<Rightarrow> (bool \<times> Server) outcome" where
  "grabIP s haddr ip = (let mac = getMac haddr in
     case conns s mac of
       Some _ \<Rightarrow> Returns (False, s)
     | None \<Rightarrow> obind (grab (ips s) ip) (\<lambda>(ok, ia).
         let s = s\<lparr>ips := ia\<rparr> in
         if \<not> ok then Returns (False, s)
         else Returns (True, s\<lparr>conns := (conns s)(mac \<mapsto> ip)\<rparr>)))"

text \<open>The error of \<open>free\<close> is dropped.\<close>

definition release :: "Server \<Rightarrow> byte list \<Rightarrow> Server outcome" where
  "release s haddr = (let mac = getMac haddr in
     case conns s mac of
       None \<Rightarrow> Returns s
     | Some ip \<Rightarrow>
         let s = s\<lparr>conns := (conns s)(mac := None)\<rparr> in
         obind (free (ips s) ip) (\<lambda>(_, ia). Returns (s\<lparr>ips := ia\<rparr>)))"

section \<open>Sending\<close>

type_synonym datagram = "byte list \<times> net_Addr"

text \<open>
  The datagram handed to \<open>conn.WriteTo\<close>, if any, and the error returned; \<open>werr\<close> is the answer
  of \<open>WriteTo\<close>.
\<close>

definition writePacket ::
  "go_error option \<Rightarrow> net_Addr \<Rightarrow> Packet \<Rightarrow> (datagram option \<times> go_error option) outcome" where
  "writePacket werr addr p = obind (Packet_MarshalBinary p) (\<lambda>r. case r of
     Inl e \<Rightarrow> Returns (None, Some e)
   | Inr pkt \<Rightarrow> (case addr of
         OtherAddr \<Rightarrow> Returns (None, Some NotUDPAddress)
       | UDPAddr ip port \<Rightarrow>
           if IP_Equal ip IPv4zero then Returns (Some (pkt, UDPAddr IPv4bcast port), werr)
           else Returns (Some (pkt, addr), werr)))"

section \<open>Serving\<close>

text \<open>
  The cases of the message loop. A case yields the new state, the datagram it sent and the
  error with which \<open>Serve\<close> returns, if it does.
\<close>

type_synonym served = "(Server \<times> datagram option \<times> go_error option) outcome"

definition serve_discover :: "Server \<Rightarrow> Packet \<Rightarrow> net_Addr \<Rightarrow> go_error option \<Rightarrow> served" where
  "serve_discover s pkt addr werr =
     obind (responsePacket s pkt DHCPOffer) (\<lambda>offer.
     let mac = getMac (CHAddr pkt) in
     obind
       (case conns s mac of
          Some ip \<Rightarrow> Returns (s, offer\<lparr>YIAddr := ip\<rparr>)
        | None \<Rightarrow>
            let rip = GetRequestedIPAddress (Opts pkt) in
            obind (grabIP s (CHAddr pkt) rip) (\<lambda>(ok, s).
            if ok then Returns (s, offer\<lparr>YIAddr := rip\<rparr>)
            else obind (newIP s (CHAddr pkt)) (\<lambda>(ip, s).
              if ip \<noteq> None then Returns (s, offer\<lparr>YIAddr := ip\<rparr>) else Returns (s, offer))))
       (\<lambda>(s, offer).
     let offer = offer\<lparr>ServerName := sname s\<rparr>;
         offer = offer\<lparr>BootFile := filename s\<rparr> in
     if YIAddr offer \<noteq> None
     then obind (writePacket werr addr offer) (\<lambda>(d, e). Returns (s, d, e))
     else Returns (s, None, None)))"

definition serve_request :: "Server \<Rightarrow> Packet \<Rightarrow> net_Addr \<Rightarrow> go_error option \<Rightarrow> served" where
  "serve_request s pkt addr werr =
    (let offered = getIP s (CHAddr pkt);
         rip = GetRequestedIPAddress (Opts pkt) in
     obind
       (if \<not> IP_Equal rip offered then responsePacket s pkt DHCPNAK
        else obind (responsePacket s pkt DHCPACK) (\<lambda>re.
          Returns (re\<lparr>CIAddr := CIAddr pkt, YIAddr := offered,
            ServerName := sname s, BootFile := filename s\<rparr>)))
       (\<lambda>re. obind (writePacket werr addr re) (\<lambda>(d, e). Returns (s, d, e))))"

definition serve_packet :: "Server \<Rightarrow> Packet \<Rightarrow> net_Addr \<Rightarrow> go_error option \<Rightarrow> served" where
  "serve_packet s pkt addr werr = (let typ = GetDHCPMessageType (Opts pkt) in
     if typ = DHCPDiscover then serve_discover s pkt addr werr
     else if typ = DHCPRequest then serve_request s pkt addr werr
     else if typ = DHCPDecline \<or> typ = DHCPRelease
     then obind (release s (CHAddr pkt)) (\<lambda>s. Returns (s, None, None))
     else if typ = DHCPInform then Returns (s, None, None)
     else if typ = DHCPOffer \<or> typ = DHCPACK \<or> typ = DHCPNAK then Returns (s, None, None)
     else Returns (s, None, None))"

text \<open>
  One input of \<open>Serve\<close>: the error of a failed \<open>ReadFrom\<close>, or the datagram it delivered, cut to
  the size of the buffer.
\<close>

datatype serve_input = ReadError go_error | Received "byte list" net_Addr "go_error option"

definition serve_one :: "Server \<Rightarrow> serve_input \<Rightarrow> served" where
  "serve_one s i = (case i of
     ReadError e \<Rightarrow> Returns (s, None, Some e)
   | Received bs addr werr \<Rightarrow> (case ParsePacket (take maxMessageSize bs) of
         Inl e \<Rightarrow> Returns (s, None, None)
       | Inr pkt \<Rightarrow> serve_packet s pkt addr werr))"

text \<open>
  The loop over the inputs that arrive. It ends with the first error; while there is none, the
  server waits for more input after the last one (\<open>None\<close>).
\<close>

fun Serve :: "Server \<Rightarrow> serve_input list \<Rightarrow> (Server \<times> datagram list \<times> go_error option) outcome" where
  "Serve s [] = Returns (s, [], None)"
| "Serve s (i # is) = obind (serve_one s i) (\<lambda>(s, d, e).
     let sent = (case d of None \<Rightarrow> [] | Some d \<Rightarrow> [d]) in
     case e of
       Some e \<Rightarrow> Returns (s, sent, Some e)
     | None \<Rightarrow> obind (Serve s is) (\<lambda>(s, ds, e). Returns (s, sent @ ds, e)))"

section \<open>Replies\<close>

text \<open>The options every reply carries.\<close>

definition reply_opts :: "byte list \<Rightarrow> DHCPMessageType \<Rightarrow> Options" where
  "reply_opts ip typ = [OptionDHCPMessageType \<mapsto> [typ], OptionServerIdentifier \<mapsto> ip,
     OptionMaximumDHCPMessageSize \<mapsto> [5, 220]]"

text \<open>The reply before the case of the message loop fills in the addresses.\<close>

definition reply_base :: "byte list \<Rightarrow> Packet \<Rightarrow> DHCPMessageType \<Rightarrow> Packet" where
  "reply_base ip request typ = (NewPacket BootReply)\<lparr>HType := HType request,
     TransactionID := TransactionID request, Broadcast := Broadcast request, SIAddr := Some ip,
     GIAddr := GIAddr request, CHAddr := CHAddr request, Opts := reply_opts ip typ\<rparr>"

lemma responsePacket_eq:
  assumes "srv_ip s = Some ip" and "length ip = 4"
  shows "responsePacket s request typ = Returns (reply_base ip request typ)"
proof -
  have low_byte: "(1500 :: byte) = 220" by simp
  show ?thesis
    using assms
    by (simp add: low_byte responsePacket_def Let_def Options_Add_def DHCPMessageType_MarshalBinary_def
      IP_MarshalBinary_def slice4_def Uint16_MarshalBinary_def AddRaw_def NewPacket_def zero_Packet_def
      reply_base_def reply_opts_def maxMessageSize_def NewBigEndianBuffer_eq write_simps
      PutUint16_def in_order_def be16_def)
qed

text \<open>What the code relies on in a received packet; \<open>ParsePacket\<close> establishes it.\<close>

definition received_packet :: "Packet \<Rightarrow> bool" where
  "received_packet p \<longleftrightarrow> wf_packet p \<and> length (CHAddr p) \<le> 16
     \<and> (\<exists>g. GIAddr p = Some g \<and> length g = 4) \<and> (\<exists>c. CIAddr p = Some c \<and> length c = 4)"

lemma ParsePacket_received: "ParsePacket q = Inr p \<Longrightarrow> received_packet p"
  by (auto simp: ParsePacket_iff received_packet_def decode_header_def wf_packet_def)

definition ip_or_nil :: "net_IP \<Rightarrow> bool" where
  "ip_or_nil ip \<longleftrightarrow> (\<forall>b. ip = Some b \<longrightarrow> length b = 4)"

lemma ip_or_nil_simps [simp]: "ip_or_nil None" "ip_or_nil (Some b) \<longleftrightarrow> length b = 4"
  by (simp_all add: ip_or_nil_def)

lemma ip_or_nil_writable: "ip_or_nil ip \<Longrightarrow> ip_writable ip"
  by (auto simp: ip_writable_def split: option.split)

text \<open>The names of the server fit into the packet, as zero-terminated strings.\<close>

definition names_fit :: "Server \<Rightarrow> bool" where
  "names_fit s \<longleftrightarrow> length (sname s) < 64 \<and> length (filename s) < 128
     \<and> 0 \<notin> set (sname s) \<and> 0 \<notin> set (filename s)"

definition config_ok :: "Server \<Rightarrow> bool" where
  "config_ok s \<longleftrightarrow> (\<exists>ip. srv_ip s = Some ip \<and> length ip = 4) \<and> names_fit s"

lemma reply_encodable:
  assumes "received_packet pkt" and "length ip = 4" and "ip_or_nil ci" and "ip_or_nil yi"
    and "length sn < 64" and "length fn < 128" and "0 \<notin> set sn" and "0 \<notin> set fn"
  shows "encodable ((reply_base ip pkt typ)
    \<lparr>CIAddr := ci, YIAddr := yi, ServerName := sn, BootFile := fn\<rparr>)"
  using assms
  by (auto simp: encodable_def reply_base_def NewPacket_def received_packet_def wf_packet_def
      header_writable_def ip_or_nil_writable marshalable_def reply_opts_def)

text \<open>Where a reply goes: back to the sender, or to everybody when it has no address yet.\<close>

fun reply_addr :: "net_Addr \<Rightarrow> net_Addr" where
  "reply_addr (UDPAddr ip port) = UDPAddr (if IP_Equal ip IPv4zero then IPv4bcast else ip) port"
| "reply_addr OtherAddr = OtherAddr"

fun udp_only :: "net_Addr \<Rightarrow> go_error option \<Rightarrow> 'a \<Rightarrow> 'a option \<times> go_error option" where
  "udp_only (UDPAddr _ _) werr d = (Some d, werr)"
| "udp_only OtherAddr werr d = (None, Some NotUDPAddress)"

lemma writePacket_encodable:
  "encodable p \<Longrightarrow> writePacket werr addr p =
    Returns (udp_only addr werr (packet_bytes p, reply_addr addr))"
  by (cases addr) (simp_all add: writePacket_def encodable_marshals)

section \<open>The lease invariant\<close>

text \<open>
  The lease table is exact for the allocator: every lease is an allocated address of the subnet,
  every allocated address is leased, and no two clients share one.
\<close>

definition server_inv :: "Server \<Rightarrow> bool" where
  "server_inv s \<longleftrightarrow> pool_inv (ips s) \<and> lease_table (conns s) (held (ips s))"

text \<open>No operation touches the configuration.\<close>

definition same_config :: "Server \<Rightarrow> Server \<Rightarrow> bool" where
  "same_config s s' \<longleftrightarrow> srv_ip s' = srv_ip s \<and> sname s' = sname s \<and> filename s' = filename s
     \<and> subnet (ips s') = subnet (ips s)"

lemma same_config_refl [simp]: "same_config s s"
  by (simp add: same_config_def)

lemma same_config_trans: "same_config s t \<Longrightarrow> same_config t u \<Longrightarrow> same_config s u"
  by (simp add: same_config_def)

lemma config_ok_same: "same_config s s' \<Longrightarrow> config_ok s' \<longleftrightarrow> config_ok s"
  by (simp add: same_config_def config_ok_def names_fit_def)

lemma server_inv_ipv4: "server_inv s \<Longrightarrow> ipv4_alloc (ips s)"
  by (simp add: server_inv_def pool_inv_def)

lemma leased_4: "server_inv s \<Longrightarrow> conns s m = Some ip \<Longrightarrow> \<exists>b. ip = Some b \<and> length b = 4 \<and> b \<in> held (ips s)"
  using lease_table_held [of "conns s" "held (ips s)" m ip] held_length [of _ "ips s"]
  by (auto simp: server_inv_def)

lemma server_inv_New: "ipv4_net sn \<Longrightarrow> server_inv (New ip sn name file)"
  by (simp add: server_inv_def New_def newIPAllocator_def pool_inv_def ipv4_alloc_def held_def
      lease_table_empty)

lemma newIP_inv:
  assumes "server_inv s" and "conns s (getMac h) = None" and "newIP s h = Returns (ip, s')"
  shows "server_inv s' \<and> same_config s s' \<and> ip_or_nil ip \<and>
    conns s' = (if ip = None then conns s else (conns s)(getMac h \<mapsto> ip))"
proof -
  have inv: "pool_inv (ips s)" "lease_table (conns s) (held (ips s))" "ipv4_alloc (ips s)"
    using assms(1) by (simp_all add: server_inv_def pool_inv_def)
  obtain r ia where a: "alloc (ips s) = Returns (r, ia)"
    using assms(2,3) by (auto simp: newIP_def outcome_simps)
  show ?thesis
  proof (cases r)
    case None
    with a assms alloc_None [OF inv(3)] show ?thesis by (simp add: newIP_def server_inv_def)
  next
    case (Some b)
    with a have a': "alloc (ips s) = Returns (Some b, ia)" by simp
    then have "ip = Some b" "s' = s\<lparr>ips := ia, conns := (conns s)(getMac h \<mapsto> Some b)\<rparr>"
      using assms(2,3) by (auto simp: newIP_def)
    with pool.lease_alloc [OF inv(1,2) assms(2) a'] alloc_Some [OF inv(3) a']
    show ?thesis by (simp add: server_inv_def same_config_def)
  qed
qed

lemma grabIP_inv:
  assumes "server_inv s" and "conns s (getMac h) = None" and "ip_or_nil ip"
    and "grabIP s h ip = Returns (ok, s')"
  shows "if ok then server_inv s' \<and> same_config s s' \<and> ip \<noteq> None \<and>
      conns s' = (conns s)(getMac h \<mapsto> ip) else s' = s"
proof -
  have inv: "pool_inv (ips s)" "lease_table (conns s) (held (ips s))" "ipv4_alloc (ips s)"
    using assms(1) by (simp_all add: server_inv_def pool_inv_def)
  obtain ia where g: "grab (ips s) ip = Returns (ok, ia)"
    and s': "s' = (if ok then s\<lparr>ips := ia, conns := (conns s)(getMac h \<mapsto> ip)\<rparr> else s\<lparr>ips := ia\<rparr>)"
    using assms(2,4) by (auto simp: grabIP_def outcome_simps Let_def split: if_splits)
  show ?thesis
  proof (cases ok)
    case True
    from g True have g': "grab (ips s) ip = Returns (True, ia)" by simp
    from grab_True [OF inv(1) this] obtain b where "To4 ip = Some b" "subnet ia = subnet (ips s)"
      by blast
    moreover from this obtain b' where b': "ip = Some b'" "length b' = 4"
      using assms(3) by (cases ip) auto
    ultimately show ?thesis
      using pool.lease_grab [OF inv(1,2) assms(2) g' [unfolded b'] b'(2)] True s' b'
      by (auto simp: server_inv_def same_config_def)
  next
    case False
    with g pool.grab_refused [OF inv(1)] s' show ?thesis by auto
  qed
qed

lemma release_inv:
  assumes "server_inv s"
  obtains s' where "release s h = Returns s'" and "server_inv s'" and "same_config s s'"
    and "conns s' = (conns s)(getMac h := None)"
    and "held (ips s') = held (ips s) - {b. conns s (getMac h) = Some (Some b)}"
proof (cases "conns s (getMac h)")
  case None
  then have "(conns s)(getMac h := None) = conns s" by auto
  with that [of s] None assms show ?thesis by (simp add: release_def)
next
  case (Some ip)
  have inv: "pool_inv (ips s)" "lease_table (conns s) (held (ips s))"
    using assms by (simp_all add: server_inv_def)
  from pool.lease_free [OF inv Some] obtain b ia where f: "ip = Some b"
    "free (ips s) ip = Returns (None, ia)" "pool_inv ia" "held ia = held (ips s) - {b}"
    "lease_table ((conns s)(getMac h := None)) (held ia)" "b \<in> held (ips s)" by metis
  have "ia = (ips s)\<lparr>allocated := allocated (ips s) - {key b}\<rparr>"
    using f free_4 [of b "ips s"] held_length [OF f(6)] by auto
  then have "subnet ia = subnet (ips s)" by simp
  with f Some that [of "s\<lparr>conns := (conns s)(getMac h := None), ips := ia\<rparr>"] show ?thesis
    by (simp add: release_def server_inv_def same_config_def Collect_conv_if)
qed

section \<open>Choosing an address\<close>

text \<open>The choice that the discover case makes: the lease, the requested address, or a new one.\<close>

definition assign_ip :: "Server \<Rightarrow> Packet \<Rightarrow> (net_IP \<times> Server) outcome" where
  "assign_ip s pkt = (case conns s (getMac (CHAddr pkt)) of
     Some ip \<Rightarrow> Returns (ip, s)
   | None \<Rightarrow> obind (grabIP s (CHAddr pkt) (GetRequestedIPAddress (Opts pkt))) (\<lambda>(ok, s).
       if ok then Returns (GetRequestedIPAddress (Opts pkt), s) else newIP s (CHAddr pkt)))"

lemma requested_4: "ip_or_nil (GetRequestedIPAddress opts)"
  by (auto simp: ip_or_nil_def GetRequestedIPAddress_def dest: GetIP_length)

lemma assign_ip_inv:
  assumes "server_inv s" and "assign_ip s pkt = Returns (ip, s')"
  shows "server_inv s' \<and> same_config s s' \<and> ip_or_nil ip \<and>
    conns s' = (if ip = None then conns s else (conns s)(getMac (CHAddr pkt) \<mapsto> ip))"
proof (cases "conns s (getMac (CHAddr pkt))")
  case (Some ip')
  moreover from this leased_4 [OF assms(1) this] assms(2) have "ip_or_nil ip"
    by (auto simp: assign_ip_def)
  ultimately show ?thesis using assms by (auto simp: assign_ip_def)
next
  case None
  note no = this
  let ?rip = "GetRequestedIPAddress (Opts pkt)"
  obtain ok t where g: "grabIP s (CHAddr pkt) ?rip = Returns (ok, t)"
    and r: "(if ok then Returns (?rip, t) else newIP t (CHAddr pkt)) = Returns (ip, s')"
    using assms(2) None by (auto simp: assign_ip_def outcome_simps)
  note t = grabIP_inv [OF assms(1) None requested_4 g]
  show ?thesis
  proof (cases ok)
    case True
    with t r requested_4 [of "Opts pkt"] show ?thesis by auto
  next
    case False
    with t r have "newIP s (CHAddr pkt) = Returns (ip, s')" by simp
    from newIP_inv [OF assms(1) no this] show ?thesis .
  qed
qed

lemma grabIP_returns:
  assumes "server_inv s" and "ip_or_nil ip"
  obtains ok s' where "grabIP s h ip = Returns (ok, s')"
proof (cases "conns s (getMac h)")
  case None
  note no = this and ia = server_inv_ipv4 [OF assms(1)]
  show ?thesis
  proof (cases ip)
    case None
    with no ia have "grabIP s h ip = Returns (False, s\<lparr>ips := ips s\<rparr>)"
      by (simp add: grabIP_def grab_not_4)
    then show ?thesis by (rule that)
  next
    case (Some b)
    with assms(2) have "To4 ip = Some b" by simp
    from grab_4 [OF ia this] no that show ?thesis
      by (cases "Contains (subnet (ips s)) ip \<and> b \<notin> held (ips s)") (auto simp: grabIP_def)
  qed
qed (auto simp: grabIP_def intro: that)

text \<open>
  Choosing an address never panics, and it only fails to return when the search for a free
  address runs around a subnet that is the whole address space and fully leased.
\<close>

lemma assign_ip_outcome:
  assumes "server_inv s"
  shows "assign_ip s pkt \<noteq> Panics \<and> (assign_ip s pkt = Diverges \<longrightarrow> alloc (ips s) = Diverges)"
proof (cases "conns s (getMac (CHAddr pkt))")
  case None
  let ?rip = "GetRequestedIPAddress (Opts pkt)"
  obtain ok t where g: "grabIP s (CHAddr pkt) ?rip = Returns (ok, t)"
    using grabIP_returns [OF assms requested_4] by metis
  note t = grabIP_inv [OF assms None requested_4 g]
  show ?thesis
    using t g None alloc_no_panic [OF server_inv_ipv4 [OF assms]]
    by (cases "alloc (ips s)"; cases ok)
      (auto simp: assign_ip_def newIP_def Let_def split: if_splits)
qed (simp add: assign_ip_def)

section \<open>The message cases\<close>

definition reply_packet :: "Server \<Rightarrow> Packet \<Rightarrow> DHCPMessageType \<Rightarrow> net_IP \<Rightarrow> net_IP \<Rightarrow> Packet" where
  "reply_packet s pkt typ ci yi = (reply_base (bytes_of (srv_ip s)) pkt typ)
     \<lparr>CIAddr := ci, YIAddr := yi, ServerName := sname s, BootFile := filename s\<rparr>"

definition nak_packet :: "Server \<Rightarrow> Packet \<Rightarrow> Packet" where
  "nak_packet s pkt = reply_base (bytes_of (srv_ip s)) pkt DHCPNAK"

lemma reply_packet_encodable:
  "config_ok s \<Longrightarrow> received_packet pkt \<Longrightarrow> ip_or_nil ci \<Longrightarrow> ip_or_nil yi \<Longrightarrow>
    encodable (reply_packet s pkt typ ci yi)"
  unfolding reply_packet_def
  by (rule reply_encodable) (auto simp: config_ok_def names_fit_def)

lemma nak_packet_encodable:
  "config_ok s \<Longrightarrow> received_packet pkt \<Longrightarrow> encodable (nak_packet s pkt)"
  using reply_encodable [of pkt "bytes_of (srv_ip s)" None None "[]" "[]" DHCPNAK]
  by (auto simp: config_ok_def nak_packet_def reply_base_def NewPacket_def zero_Packet_def)

lemma responsePacket_config:
  "config_ok s \<Longrightarrow> responsePacket s pkt typ = Returns (reply_base (bytes_of (srv_ip s)) pkt typ)"
  by (auto simp: config_ok_def responsePacket_eq)

text \<open>A reply and the result of writing it.\<close>

definition send_reply :: "net_Addr \<Rightarrow> go_error option \<Rightarrow> Packet \<Rightarrow> datagram option \<times> go_error option" where
  "send_reply addr werr p = udp_only addr werr (packet_bytes p, reply_addr addr)"

lemma serve_discover_eq:
  assumes "server_inv s" and "config_ok s" and "received_packet pkt"
  shows "serve_discover s pkt addr werr = obind (assign_ip s pkt) (\<lambda>(yi, s').
    if yi = None then Returns (s', None, None)
    else Returns (s', send_reply addr werr (reply_packet s pkt DHCPOffer None yi)))"
proof -
  let ?base = "reply_base (bytes_of (srv_ip s)) pkt DHCPOffer"
  have none: "YIAddr ?base = None" "CIAddr ?base = None"
    by (simp_all add: reply_base_def NewPacket_def zero_Packet_def)
  have "serve_discover s pkt addr werr = obind (assign_ip s pkt) (\<lambda>(yi, s').
      if yi = None then Returns (s', None, None)
      else obind (writePacket werr addr (?base\<lparr>YIAddr := yi, ServerName := sname s', BootFile := filename s'\<rparr>))
        (\<lambda>(d, e). Returns (s', d, e)))"
  proof (cases "conns s (getMac (CHAddr pkt))")
    case None
    let ?g = "grabIP s (CHAddr pkt) (GetRequestedIPAddress (Opts pkt))"
    show ?thesis
    proof (cases ?g)
      case (Returns r)
      obtain ok t where "r = (ok, t)" by (cases r)
      with Returns None none show ?thesis
        by (cases ok; cases "newIP t (CHAddr pkt)")
          (auto simp: serve_discover_def responsePacket_config [OF assms(2)] assign_ip_def Let_def)
    qed (use None in \<open>simp_all add: serve_discover_def responsePacket_config [OF assms(2)]
        assign_ip_def Let_def\<close>)
  qed (simp add: serve_discover_def responsePacket_config [OF assms(2)] assign_ip_def Let_def)
  also have "\<dots> = obind (assign_ip s pkt) (\<lambda>(yi, s').
      if yi = None then Returns (s', None, None)
      else Returns (s', send_reply addr werr (reply_packet s pkt DHCPOffer None yi)))"
  proof (cases "assign_ip s pkt")
    case (Returns r)
    obtain yi s' where r: "r = (yi, s')" by (cases r)
    from assign_ip_inv [OF assms(1) Returns [unfolded r]] have a: "same_config s s'" "ip_or_nil yi"
      by simp_all
    have "?base\<lparr>YIAddr := yi, ServerName := sname s', BootFile := filename s'\<rparr> =
        reply_packet s pkt DHCPOffer None yi"
      using a(1) none by (simp add: reply_packet_def same_config_def)
    moreover have "encodable (reply_packet s pkt DHCPOffer None yi)"
      using assms(2,3) a(2) by (simp add: reply_packet_encodable)
    ultimately show ?thesis
      by (simp add: Returns r writePacket_encodable send_reply_def split: prod.split)
  qed simp_all
  finally show ?thesis .
qed

lemma serve_request_eq:
  assumes "server_inv s" and "config_ok s" and "received_packet pkt"
  shows "serve_request s pkt addr werr = Returns (s, send_reply addr werr
    (if IP_Equal (GetRequestedIPAddress (Opts pkt)) (getIP s (CHAddr pkt))
     then reply_packet s pkt DHCPACK (CIAddr pkt) (getIP s (CHAddr pkt))
     else nak_packet s pkt))"
proof -
  let ?yi = "getIP s (CHAddr pkt)" and ?base = "reply_base (bytes_of (srv_ip s)) pkt"
  have yi: "ip_or_nil ?yi"
    using leased_4 [OF assms(1)] by (fastforce simp: getIP_def split: option.split)
  have ci: "ip_or_nil (CIAddr pkt)"
    using assms(3) by (auto simp: received_packet_def)
  have "(?base DHCPACK)\<lparr>CIAddr := CIAddr pkt, YIAddr := ?yi, ServerName := sname s, BootFile := filename s\<rparr>
      = reply_packet s pkt DHCPACK (CIAddr pkt) ?yi"
    by (simp add: reply_packet_def)
  moreover have "?base DHCPNAK = nak_packet s pkt" by (simp add: nak_packet_def)
  ultimately show ?thesis
    using reply_packet_encodable [OF assms(2,3) ci yi] nak_packet_encodable [OF assms(2,3)]
    by (simp add: serve_request_def Let_def responsePacket_config [OF assms(2)] writePacket_encodable
        send_reply_def split: prod.split)
qed

section \<open>Serving keeps the invariant\<close>

lemma serve_packet_inv:
  assumes "server_inv s" and "config_ok s" and "received_packet pkt"
    and "serve_packet s pkt addr werr = Returns (s', d, e)"
  shows "server_inv s' \<and> same_config s s'"
proof -
  consider (discover) "serve_discover s pkt addr werr = Returns (s', d, e)"
    | (request) "serve_request s pkt addr werr = Returns (s', d, e)"
    | (release) "release s (CHAddr pkt) = Returns s'"
    | (other) "s' = s"
    using assms(4) by (auto simp: serve_packet_def Let_def outcome_simps split: if_splits)
  then show ?thesis
  proof cases
    case discover
    then obtain yi where "assign_ip s pkt = Returns (yi, s')"
      using serve_discover_eq [OF assms(1-3)] by (auto simp: outcome_simps split: if_splits)
    from assign_ip_inv [OF assms(1) this] show ?thesis by simp
  next
    case request
    with serve_request_eq [OF assms(1-3)] assms(1) show ?thesis by simp
  next
    case release
    with release_inv [OF assms(1)] show ?thesis by (metis outcome.inject)
  qed (use assms(1) in simp)
qed

lemma serve_packet_outcome:
  assumes "server_inv s" and "config_ok s" and "received_packet pkt"
  shows "serve_packet s pkt addr werr \<noteq> Panics \<and>
    (serve_packet s pkt addr werr = Diverges \<longrightarrow> alloc (ips s) = Diverges)"
proof -
  obtain t where "release s (CHAddr pkt) = Returns t" using release_inv [OF assms(1)] by metis
  then show ?thesis
    using assign_ip_outcome [OF assms(1), of pkt]
    by (cases "assign_ip s pkt")
      (auto simp: serve_packet_def Let_def serve_discover_eq [OF assms] serve_request_eq [OF assms]
        split: if_splits)
qed

lemma serve_one_inv:
  assumes "server_inv s" and "config_ok s" and "serve_one s i = Returns (s', d, e)"
  shows "server_inv s' \<and> same_config s s'"
  using assms serve_packet_inv [OF assms(1,2) ParsePacket_received]
  by (auto simp: serve_one_def split: serve_input.splits sum.splits)

lemma serve_one_outcome:
  assumes "server_inv s" and "config_ok s"
  shows "serve_one s i \<noteq> Panics \<and> (serve_one s i = Diverges \<longrightarrow> alloc (ips s) = Diverges)"
  using serve_packet_outcome [OF assms ParsePacket_received]
  by (auto simp: serve_one_def split: serve_input.split sum.split)

text \<open>
  A server whose subnet is not the whole address space always finds an end of its search.
\<close>

definition proper_subnet :: "Server \<Rightarrow> bool" where
  "proper_subnet s \<longleftrightarrow> (\<exists>b. length b = 4 \<and> \<not> Contains (subnet (ips s)) (Some b))"

lemma proper_subnet_alloc: "server_inv s \<Longrightarrow> proper_subnet s \<Longrightarrow> alloc (ips s) \<noteq> Diverges"
  by (auto simp: alloc_diverges_iff server_inv_ipv4 proper_subnet_def blocked_def)

lemma Serve_inv:
  "server_inv s \<Longrightarrow> config_ok s \<Longrightarrow> Serve s is = Returns (s', ds, e) \<Longrightarrow> server_inv s' \<and> same_config s s'"
proof (induction "is" arbitrary: s ds)
  case (Cons i "is")
  obtain t d e1 where one: "serve_one s i = Returns (t, d, e1)"
    using Cons.prems(3) by (auto simp: outcome_simps)
  note t = serve_one_inv [OF Cons.prems(1,2) one]
  show ?case
  proof (cases e1)
    case None
    with one Cons.prems(3) obtain ds' where "Serve t is = Returns (s', ds', e)"
      by (auto simp: outcome_simps)
    with Cons.IH [of t ds'] t Cons.prems(2) show ?thesis
      by (auto simp: config_ok_same intro: same_config_trans)
  next
    case (Some x)
    with one Cons.prems(3) t show ?thesis by auto
  qed
qed simp

lemma Serve_returns:
  "server_inv s \<Longrightarrow> config_ok s \<Longrightarrow> proper_subnet s \<Longrightarrow> \<exists>s' ds e. Serve s is = Returns (s', ds, e)"
proof (induction "is" arbitrary: s)
  case (Cons i "is")
  have "serve_one s i \<noteq> Panics" "serve_one s i \<noteq> Diverges"
    using serve_one_outcome [OF Cons.prems(1,2), of i] proper_subnet_alloc [OF Cons.prems(1,3)] by auto
  then obtain t d e1 where one: "serve_one s i = Returns (t, d, e1)"
    by (cases "serve_one s i") auto
  note t = serve_one_inv [OF Cons.prems(1,2) one]
  then have "proper_subnet t" using Cons.prems(3) by (simp add: proper_subnet_def same_config_def)
  with Cons.IH [of t] t Cons.prems(2) one show ?case
    by (cases e1) (auto simp: config_ok_same Let_def)
qed simp

text \<open>The errors with which handling one input can end: those of the environment.\<close>

fun input_errors :: "serve_input \<Rightarrow> go_error option set" where
  "input_errors (ReadError e) = {Some e}"
| "input_errors (Received _ (UDPAddr _ _) werr) = {werr}"
| "input_errors (Received _ OtherAddr _) = {Some NotUDPAddress}"

lemma send_reply_error: "snd (send_reply addr werr p) \<in> input_errors (Received bs addr werr)"
  by (cases addr) (simp_all add: send_reply_def)

lemma serve_one_error:
  assumes "server_inv s" and "config_ok s" and "serve_one s i = Returns (s', d, e)"
  shows "e = None \<or> e \<in> input_errors i"
proof (cases i)
  case (ReadError x)
  with assms(3) show ?thesis by (simp add: serve_one_def)
next
  case (Received bs addr werr)
  then show ?thesis
  proof (cases "ParsePacket (take maxMessageSize bs)")
    case (Inr pkt)
    note eqs = serve_discover_eq [OF assms(1,2) ParsePacket_received [OF Inr]]
      serve_request_eq [OF assms(1,2) ParsePacket_received [OF Inr]]
    have "e = None \<or> (\<exists>p. e = snd (send_reply addr werr p))"
      using assms(3) Received Inr
      by (auto simp: serve_one_def serve_packet_def Let_def eqs outcome_simps split: if_splits)
        (metis snd_conv)+
    with send_reply_error [of addr werr _ bs] Received show ?thesis by metis
  qed (use assms(3) Received in \<open>simp add: serve_one_def\<close>)
qed

lemma Serve_errors:
  "server_inv s \<Longrightarrow> config_ok s \<Longrightarrow> Serve s inputs = Returns (s', ds, e) \<Longrightarrow>
    e = None \<or> e \<in> (\<Union>i \<in> set inputs. input_errors i)"
proof (induction inputs arbitrary: s ds)
  case (Cons i "inputs")
  obtain t d e1 where one: "serve_one s i = Returns (t, d, e1)"
    using Cons.prems(3) by (auto simp: outcome_simps)
  note t = serve_one_inv [OF Cons.prems(1,2) one]
  show ?case
  proof (cases e1)
    case None
    with one Cons.prems(3) obtain ds' where "Serve t inputs = Returns (s', ds', e)"
      by (auto simp: outcome_simps)
    with Cons.IH [of t ds'] t Cons.prems(2) show ?thesis by (auto simp: config_ok_same)
  next
    case (Some x)
    with one Cons.prems(3) serve_one_error [OF Cons.prems(1,2) one] show ?thesis by auto
  qed
qed simp

end
