(* ===== verification/ServerSpec.thy ===== *)
theory ServerSpec
  imports Server
begin

text \<open>
  What a client sees of the server of \<^theory_text>\<open>Server\<close>: the replies as they decode from the wire, the
  choice of addresses, the lifetime of a lease over a whole run, and the properties that hold of
  every run from \<open>New\<close>.
\<close>

section \<open>What the replies say\<close>

lemma drop_empty_reply_opts: "ip \<noteq> [] \<Longrightarrow> drop_empty (reply_opts ip typ) = reply_opts ip typ"
  by (auto simp: drop_empty_def reply_opts_def fun_eq_iff)

lemma reply_opts_get:
  "GetDHCPMessageType (reply_opts ip typ) = typ"
  "length ip = 4 \<Longrightarrow> GetServerIdentifier (reply_opts ip typ) = Some ip"
  by (simp_all add: GetDHCPMessageType_eq reply_opts_def GetServerIdentifier_def GetIP_eq)

text \<open>A reply to a request: the fields that identify the exchange, and the offered address.\<close>

definition answers :: "Server \<Rightarrow> Packet \<Rightarrow> Packet \<Rightarrow> DHCPMessageType \<Rightarrow> net_IP \<Rightarrow> bool" where
  "answers s pkt re typ yi \<longleftrightarrow> Op re = BootReply \<and> HType re = HType pkt \<and>
     TransactionID re = TransactionID pkt \<and> CHAddr re = CHAddr pkt \<and> Broadcast re = Broadcast pkt \<and>
     GIAddr re = GIAddr pkt \<and> SIAddr re = srv_ip s \<and> YIAddr re = yi \<and>
     GetDHCPMessageType (Opts re) = typ \<and> GetServerIdentifier (Opts re) = srv_ip s"

lemma canonical_reply_answers:
  assumes "config_ok s" and "received_packet pkt"
  shows "answers s pkt (canonical (reply_packet s pkt typ ci yi)) typ (Some (ip4_field yi))"
proof -
  obtain ip where ip: "srv_ip s = Some ip" "length ip = 4"
    using assms(1) by (auto simp: config_ok_def)
  then have "ip \<noteq> []" by auto
  with ip assms(2) show ?thesis
    by (auto simp: answers_def canonical_def reply_packet_def reply_base_def NewPacket_def
        ip4_field_def received_packet_def drop_empty_reply_opts reply_opts_get)
qed

lemma canonical_nak_answers:
  assumes "config_ok s" and "received_packet pkt"
  shows "answers s pkt (canonical (nak_packet s pkt)) DHCPNAK (Some [0, 0, 0, 0])"
proof -
  obtain ip where ip: "srv_ip s = Some ip" "length ip = 4"
    using assms(1) by (auto simp: config_ok_def)
  then have "ip \<noteq> []" by auto
  with ip assms(2) show ?thesis
    by (auto simp: answers_def canonical_def nak_packet_def reply_base_def NewPacket_def zero_Packet_def
        ip4_field_def received_packet_def drop_empty_reply_opts reply_opts_get zeros_def numeral_eq_Suc)
qed

text \<open>The datagram of a reply decodes to a packet that answers the request.\<close>

lemma sent_reply:
  assumes "config_ok s" and "received_packet pkt" and "ip_or_nil ci" and "ip_or_nil yi"
  shows "\<exists>bs re. send_reply (UDPAddr a port) werr (reply_packet s pkt typ ci yi) =
      (Some (bs, reply_addr (UDPAddr a port)), werr) \<and>
    ParsePacket bs = Inr re \<and> answers s pkt re typ (Some (ip4_field yi))"
  using ParsePacket_packet_bytes [OF reply_packet_encodable [OF assms]]
    canonical_reply_answers [OF assms(1,2)] by (simp add: send_reply_def)

lemma reply_answers:
  assumes "config_ok s" and "received_packet pkt" and "ip_or_nil ci" and "ip_or_nil yi"
    and "send_reply addr werr (reply_packet s pkt typ ci yi) = (Some (bs, raddr), e)"
    and "ParsePacket bs = Inr re"
  shows "answers s pkt re typ (Some (ip4_field yi))"
proof (cases addr)
  case (UDPAddr a port)
  with sent_reply [OF assms(1-4), of a port werr "typ"] assms(5,6) show ?thesis by auto
qed (use assms(5) in \<open>simp add: send_reply_def\<close>)

text \<open>A reply also fits the buffer of a client.\<close>

lemma reply_size:
  assumes "config_ok s" and "received_packet pkt" and "ip_or_nil ci" and "ip_or_nil yi"
  shows "length (packet_bytes (reply_packet s pkt typ ci yi)) = 254"
proof -
  obtain ip where ip: "srv_ip s = Some ip" "length ip = 4"
    using assms(1) by (auto simp: config_ok_def)
  then have "ip \<noteq> []" by auto
  have o: "Opts (reply_packet s pkt typ ci yi) = reply_opts ip typ"
    using ip by (simp add: reply_packet_def reply_base_def)
  have "length (packet_bytes (reply_packet s pkt typ ci yi)) =
      241 + (\<Sum>c \<in> dom (reply_opts ip typ). 2 + length (bytes_of (reply_opts ip typ c)))"
    unfolding o [symmetric]
  proof (rule length_packet_bytes [OF reply_packet_encodable [OF assms]])
    show "d \<noteq> [] \<and> length d \<le> 255" if "Opts (reply_packet s pkt typ ci yi) c = Some d" for c d
      using that \<open>ip \<noteq> []\<close> ip(2) unfolding o by (auto simp: reply_opts_def split: if_splits)
  qed
  then show ?thesis using ip(2) by (simp add: reply_opts_def)
qed

lemma reply_received:
  assumes "config_ok s" and "received_packet pkt" and "ip_or_nil ci" and "ip_or_nil yi"
    and "send_reply addr werr (reply_packet s pkt typ ci yi) = (Some (bs, raddr), e)"
  shows "\<exists>re. ParsePacket (take 1500 bs) = Inr re \<and> answers s pkt re typ (Some (ip4_field yi))"
proof -
  have "bs = packet_bytes (reply_packet s pkt typ ci yi)"
    using assms(5) by (cases addr) (auto simp: send_reply_def)
  then have "take 1500 bs = bs" "ParsePacket bs = Inr (canonical (reply_packet s pkt typ ci yi))"
    using reply_size [OF assms(1-4)] ParsePacket_packet_bytes [OF reply_packet_encodable [OF assms(1-4)]] by auto
  with reply_answers [OF assms] show ?thesis by auto
qed

lemma sent_nak:
  assumes "config_ok s" and "received_packet pkt"
  shows "\<exists>bs re. send_reply (UDPAddr a port) werr (nak_packet s pkt) =
      (Some (bs, reply_addr (UDPAddr a port)), werr) \<and>
    ParsePacket bs = Inr re \<and> answers s pkt re DHCPNAK (Some [0, 0, 0, 0])"
  using ParsePacket_packet_bytes [OF nak_packet_encodable [OF assms]]
    canonical_nak_answers [OF assms] by (simp add: send_reply_def)

lemma assign_ip_choice:
  assumes "server_inv s" and "assign_ip s pkt = Returns (ip, s')"
  shows "if conns s (getMac (CHAddr pkt)) \<noteq> None
    then conns s (getMac (CHAddr pkt)) = Some ip \<and> s' = s
    else if \<exists>b. GetRequestedIPAddress (Opts pkt) = Some b \<and>
        Contains (subnet (ips s)) (Some b) \<and> b \<notin> held (ips s)
    then ip = GetRequestedIPAddress (Opts pkt)
    else \<exists>ia. alloc (ips s) = Returns (ip, ia)"
proof (cases "conns s (getMac (CHAddr pkt))")
  case None
  note no = this and ia = server_inv_ipv4 [OF assms(1)]
  let ?rip = "GetRequestedIPAddress (Opts pkt)"
  have new: "\<exists>ia. alloc (ips s) = Returns (ip, ia)" if "newIP (s\<lparr>ips := ips s\<rparr>) (CHAddr pkt) = Returns (ip, s')"
    using that no by (auto simp: newIP_def outcome_simps Let_def split: if_splits)
  show ?thesis
  proof (cases ?rip)
    case None
    with no ia assms(2) new show ?thesis by (simp add: assign_ip_def grabIP_def grab_not_4)
  next
    case (Some b)
    with requested_4 [of "Opts pkt"] have "To4 ?rip = Some b" by simp
    from grab_4 [OF ia this] Some no assms(2) new show ?thesis
      by (cases "Contains (subnet (ips s)) (Some b) \<and> b \<notin> held (ips s)")
        (auto simp: assign_ip_def grabIP_def)
  qed
qed (use assms(2) in \<open>simp add: assign_ip_def\<close>)

section \<open>A concrete server and two concrete messages\<close>

definition example_net :: IPNet where
  "example_net = \<lparr>IPNet_IP = [192, 168, 1, 0], IPNet_Mask = [255, 255, 255, 0]\<rparr>"

definition example_server :: Server where
  "example_server = New (Some [192, 168, 0, 1]) example_net [] []"

text \<open>A message of the given type that requests the given address.\<close>

definition example_msg :: "DHCPMessageType \<Rightarrow> byte list \<Rightarrow> Packet" where
  "example_msg typ ip = (NewPacket BootRequest)\<lparr>CIAddr := Some [0, 0, 0, 0], YIAddr := Some [0, 0, 0, 0],
     SIAddr := Some [0, 0, 0, 0], GIAddr := Some [0, 0, 0, 0], CHAddr := [2, 0, 0, 0, 0, 7], Opts := [OptionDHCPMessageType \<mapsto> [typ], OptionRequestedIPAddress \<mapsto> ip]\<rparr>"

lemma example_ok:
  "ipv4_net example_net" "server_inv example_server" "config_ok example_server"
  "proper_subnet example_server" "received_packet (example_msg typ ip)"
  "GetDHCPMessageType (Opts (example_msg typ ip)) = typ"
proof -
  show n: "ipv4_net example_net" by (simp add: example_net_def ipv4_net_def)
  show "server_inv example_server" unfolding example_server_def by (rule server_inv_New [OF n])
  show "config_ok example_server"
    by (simp add: config_ok_def example_server_def New_def names_fit_def)
  have "\<not> Contains (subnet (ips example_server)) (Some [0, 0, 0, 0])"
    by (simp add: example_server_def New_def newIPAllocator_def Contains_ipv4 n)
      (simp add: example_net_def masked_def)
  then show "proper_subnet example_server"
    unfolding proper_subnet_def by (intro exI [of _ "[0, 0, 0, 0]"]) simp
  show "received_packet (example_msg typ ip)"
    by (simp add: received_packet_def example_msg_def wf_packet_def NewPacket_def zero_Packet_def)
  show "GetDHCPMessageType (Opts (example_msg typ ip)) = typ"
    by (simp add: GetDHCPMessageType_eq example_msg_def)
qed

lemmas example_New = example_ok(3,4) [unfolded example_server_def]

lemma example_serve:
  obtains s' d e where "serve_packet example_server (example_msg typ ip) addr werr = Returns (s', d, e)"
  using serve_packet_outcome [OF example_ok(2,3,5), of "typ" ip addr werr]
    proper_subnet_alloc [OF example_ok(2,4)]
  by (cases "serve_packet example_server (example_msg typ ip) addr werr") auto

lemma example_subnet: "subnet (ips example_server) = example_net"
  by (simp add: example_server_def New_def newIPAllocator_def)

lemma example_cidr: "cidr_net 8 (subnet (ips example_server))"
  by (simp add: example_subnet example_net_def cidr_net_def ipv4_net_def be_val_def mask_eq_decr_exp)

lemma example_requests: "length ip = 4 \<Longrightarrow> GetRequestedIPAddress (Opts (example_msg typ ip)) = Some ip"
  by (simp add: GetRequestedIPAddress_def GetIP_eq example_msg_def)

lemma server_inv_held: "server_inv s \<Longrightarrow> b \<in> held (ips s) \<longleftrightarrow> (\<exists>m. conns s m = Some (Some b))"
  unfolding server_inv_def lease_table_def ran_def by (auto simp: set_eq_iff image_iff)

lemma example_encodable: "encodable (example_msg typ ip)"
  by (simp add: example_msg_def encodable_def NewPacket_def zero_Packet_def wf_packet_def
      header_writable_def ip_writable_def marshalable_def)

lemma example_keys: "sortedKeys (Opts (example_msg typ ip)) = [50, 53]"
proof -
  have "sort (map unat [53 :: OptionCode, 50]) = sortedKeys (Opts (example_msg typ ip))"
    by (rule sortedKeys_of_order) (simp_all add: example_msg_def insert_commute)
  then show ?thesis by simp
qed

lemma example_received:
  assumes "length ip = 4"
  shows "ParsePacket (take maxMessageSize (packet_bytes (example_msg typ ip))) = Inr (example_msg typ ip)"
proof -
  have "chunks ip = [ip]" "ip \<noteq> []" using assms by (auto simp: chunks.simps)
  then have "length (wire (items_of_options (Opts (example_msg typ ip))) 0) = 10"
    using assms by (simp add: items_of_options_sorted items_of_option_def example_keys wire_def)
      (simp add: example_msg_def chunks.simps)
  then have "length (packet_bytes (example_msg typ ip)) \<le> maxMessageSize"
    using example_encodable by (simp add: packet_bytes_def encodable_def length_packet_header maxMessageSize_def)
  moreover have "canonical (example_msg typ ip) = example_msg typ ip"
    using \<open>ip \<noteq> []\<close>
    by (auto simp: canonical_def example_msg_def drop_empty_def fun_eq_iff ip4_field_def NewPacket_def zero_Packet_def)
  ultimately show ?thesis using ParsePacket_packet_bytes [OF example_encodable] by simp
qed

section \<open>The message cases, observed from outside\<close>

lemma getIP_conns: "server_inv s \<Longrightarrow> getIP s h = None \<longleftrightarrow> conns s (getMac h) = None"
  using leased_4 [of s "getMac h" None] by (cases "conns s (getMac h)") (auto simp: getIP_def)

lemma getIP_4: "server_inv s \<Longrightarrow> ip_or_nil (getIP s h)"
  using leased_4 [of s "getMac h"] by (fastforce simp: getIP_def split: option.split)

lemma field_of_lease: "ip_or_nil (Some b) \<Longrightarrow> ip4_field (Some b) = b"
  by (simp add: ip4_field_def)

lemma discover_assigns:
  assumes "server_inv s" and "config_ok s" and "received_packet pkt"
    and "GetDHCPMessageType (Opts pkt) = DHCPDiscover"
    and "serve_packet s pkt addr werr = Returns (s', d, e)"
  shows "assign_ip s pkt = Returns (getIP s' (CHAddr pkt), s') \<and>
    (d, e) = (if getIP s' (CHAddr pkt) = None then (None, None)
      else send_reply addr werr (reply_packet s pkt DHCPOffer None (getIP s' (CHAddr pkt))))"
proof -
  have "serve_discover s pkt addr werr = Returns (s', d, e)"
    using assms(4,5) by (simp add: serve_packet_def)
  then obtain yi where yi: "assign_ip s pkt = Returns (yi, s')"
    "(d, e) = (if yi = None then (None, None) else send_reply addr werr (reply_packet s pkt DHCPOffer None yi))"
    by (auto simp: serve_discover_eq [OF assms(1-3)] outcome_simps split: if_splits)
  note a = assign_ip_inv [OF assms(1) yi(1)]
  have "getIP s' (CHAddr pkt) = yi"
  proof (cases yi)
    case None
    then have "conns s' (getMac (CHAddr pkt)) = None"
      using a leased_4 [OF assms(1)] assign_ip_choice [OF assms(1) yi(1)] None
      by (auto split: if_splits)
    with None show ?thesis by (simp add: getIP_def)
  qed (use a in \<open>simp add: getIP_def\<close>)
  with yi show ?thesis by simp
qed

lemma request_replies:
  assumes "server_inv s" and "config_ok s" and "received_packet pkt"
    and "GetDHCPMessageType (Opts pkt) = DHCPRequest"
  shows "serve_packet s pkt addr werr = Returns (s, send_reply addr werr
    (if IP_Equal (GetRequestedIPAddress (Opts pkt)) (getIP s (CHAddr pkt))
     then reply_packet s pkt DHCPACK (CIAddr pkt) (getIP s (CHAddr pkt)) else nak_packet s pkt))"
  using serve_request_eq [OF assms(1-3)] assms(4) by (simp add: serve_packet_def)

text \<open>
  An address the server can lease out. In a subnet that is a network address with a prefix mask,
  the address chosen without a request is the lowest of them.
\<close>

definition free_addr :: "Server \<Rightarrow> byte list \<Rightarrow> bool" where
  "free_addr s b \<longleftrightarrow> length b = 4 \<and> Contains (subnet (ips s)) (Some b) \<and> (\<forall>m. conns s m \<noteq> Some (Some b))"

lemma free_addr_held:
  "server_inv s \<Longrightarrow> free_addr s b \<longleftrightarrow> length b = 4 \<and> Contains (subnet (ips s)) (Some b) \<and> b \<notin> held (ips s)"
  by (simp add: free_addr_def server_inv_held)

lemma alloc_free_addr:
  assumes "server_inv s" and "cidr_net k (subnet (ips s))" and "alloc (ips s) = Returns (yi, ia)"
  shows "case yi of None \<Rightarrow> \<forall>b. \<not> free_addr s b
    | Some b \<Rightarrow> free_addr s b \<and> (\<forall>c. free_addr s c \<longrightarrow> be_val b \<le> be_val c)"
proof (cases yi)
  case None
  with assms(3) alloc_exhausted [OF assms(2)] show ?thesis by (auto simp: free_addr_held [OF assms(1)])
next
  case (Some b)
  with assms(3) alloc_Some [OF cidr_ipv4_alloc [OF assms(2)], of b ia] alloc_least [OF assms(2), of b ia]
  show ?thesis by (auto simp: free_addr_held [OF assms(1)] not_le [symmetric])
qed

lemma assign_ip_lowest:
  assumes "server_inv s" and "cidr_net k (subnet (ips s))" and "assign_ip s pkt = Returns (yi, s')"
  shows "if conns s (getMac (CHAddr pkt)) \<noteq> None then conns s (getMac (CHAddr pkt)) = Some yi \<and> s' = s
    else if \<exists>b. GetRequestedIPAddress (Opts pkt) = Some b \<and> free_addr s b then yi = GetRequestedIPAddress (Opts pkt)
    else (case yi of
        None \<Rightarrow> \<forall>b. \<not> free_addr s b
      | Some b \<Rightarrow> free_addr s b \<and> (\<forall>c. free_addr s c \<longrightarrow> be_val b \<le> be_val c))"
proof -
  have "length b = 4" if "GetRequestedIPAddress (Opts pkt) = Some b" for b
    using requested_4 [of "Opts pkt"] that by simp
  then have "(\<exists>b. GetRequestedIPAddress (Opts pkt) = Some b \<and> free_addr s b) \<longleftrightarrow>
      (\<exists>b. GetRequestedIPAddress (Opts pkt) = Some b \<and> Contains (subnet (ips s)) (Some b) \<and> b \<notin> held (ips s))"
    by (auto simp: free_addr_held [OF assms(1)])
  with assign_ip_choice [OF assms(1,3)] alloc_free_addr [OF assms(1,2)] show ?thesis by (auto split: if_splits)
qed

text \<open>The packets that give up a lease.\<close>

definition gives_up :: "Packet \<Rightarrow> macAddr \<Rightarrow> bool" where
  "gives_up pkt m \<longleftrightarrow> getMac (CHAddr pkt) = m \<and> GetDHCPMessageType (Opts pkt) \<in> {DHCPDecline, DHCPRelease}"

lemma serve_packet_keeps_lease:
  assumes "server_inv s" and "config_ok s" and "received_packet pkt"
    and "serve_packet s pkt addr werr = Returns (s', d, e)"
    and "conns s m = Some ip" and "\<not> gives_up pkt m"
  shows "conns s' m = Some ip"
proof -
  let ?t = "GetDHCPMessageType (Opts pkt)"
  consider (discover) "?t = DHCPDiscover" | (release) "?t \<in> {DHCPDecline, DHCPRelease}" | (other) "s' = s"
    using assms(4) request_replies [OF assms(1-3)]
    by (auto simp: serve_packet_def Let_def outcome_simps split: if_splits)
  then show ?thesis
  proof cases
    case discover
    note a = conjunct1 [OF discover_assigns [OF assms(1-3) discover assms(4)]]
    from assign_ip_inv [OF assms(1) a] assign_ip_choice [OF assms(1) a] assms(5)
    show ?thesis by (auto split: if_splits)
  next
    case release
    then have "release s (CHAddr pkt) = Returns s'"
      using assms(4) by (auto simp: serve_packet_def Let_def outcome_simps)
    with release_inv [OF assms(1), of "CHAddr pkt"] have "conns s' = (conns s)(getMac (CHAddr pkt) := None)"
      by (metis outcome.inject)
    with release assms(5,6) show ?thesis by (auto simp: gives_up_def)
  qed (use assms(5) in simp)
qed

definition input_gives_up :: "serve_input \<Rightarrow> macAddr \<Rightarrow> bool" where
  "input_gives_up i m = (case i of
     ReadError e \<Rightarrow> False
   | Received bs addr werr \<Rightarrow> (case ParsePacket (take maxMessageSize bs) of
         Inl e \<Rightarrow> False
       | Inr pkt \<Rightarrow> gives_up pkt m))"

lemma serve_one_keeps_lease:
  assumes "server_inv s" and "config_ok s" and "serve_one s i = Returns (s', d, e)"
    and "conns s m = Some ip" and "\<not> input_gives_up i m"
  shows "conns s' m = Some ip"
  using assms serve_packet_keeps_lease [OF assms(1,2) ParsePacket_received]
  by (fastforce simp: serve_one_def input_gives_up_def split: serve_input.splits sum.splits)

lemma Serve_keeps_lease:
  "server_inv s \<Longrightarrow> config_ok s \<Longrightarrow> Serve s inputs = Returns (s', ds, e) \<Longrightarrow> conns s m = Some ip \<Longrightarrow>
    (\<And>i. i \<in> set inputs \<Longrightarrow> \<not> input_gives_up i m) \<Longrightarrow> conns s' m = Some ip"
proof (induction inputs arbitrary: s ds)
  case (Cons i inputs)
  obtain t d e1 where one: "serve_one s i = Returns (t, d, e1)"
    using Cons.prems(3) by (auto simp: outcome_simps)
  note t = serve_one_inv [OF Cons.prems(1,2) one]
    serve_one_keeps_lease [OF Cons.prems(1,2) one Cons.prems(4) Cons.prems(5), simplified]
  show ?case
  proof (cases e1)
    case None
    with one Cons.prems(3) obtain ds' where "Serve t inputs = Returns (s', ds', e)"
      by (auto simp: outcome_simps)
    with Cons.IH [of t ds'] t Cons.prems(2,5) show ?thesis by (auto simp: config_ok_same)
  next
    case (Some x)
    with one Cons.prems(3) t show ?thesis by auto
  qed
qed simp

lemma example_gets:
  assumes "serve_packet example_server (example_msg DHCPDiscover [192, 168, 1, 9]) addr werr = Returns (s', d, e)"
  shows "getIP s' [2, 0, 0, 0, 0, 7] = Some [192, 168, 1, 9]"
proof -
  have "Contains (subnet (ips example_server)) (Some [192, 168, 1, 9])"
    by (simp add: example_subnet Contains_ipv4 example_ok(1)) (simp add: example_net_def masked_def)
  moreover have "held (ips example_server) = {}" "conns example_server = Map.empty"
    by (simp_all add: example_server_def New_def newIPAllocator_def held_def)
  moreover note assign_ip_choice [OF example_ok(2)
      conjunct1 [OF discover_assigns [OF example_ok(2,3,5,6) assms]]]
  ultimately show ?thesis by (simp add: example_requests) (simp add: example_msg_def)
qed

lemma example_offer:
  obtains s d where "serve_packet example_server (example_msg DHCPDiscover [192, 168, 1, 9]) (UDPAddr IPv4zero 68) None =
      Returns (s, Some (d, UDPAddr IPv4bcast 68), None)" and "getIP s [2, 0, 0, 0, 0, 7] = Some [192, 168, 1, 9]"
proof -
  obtain s d e where r: "serve_packet example_server (example_msg DHCPDiscover [192, 168, 1, 9])
      (UDPAddr IPv4zero 68) None = Returns (s, d, e)" by (rule example_serve)
  have "CHAddr (example_msg DHCPDiscover [192, 168, 1, 9]) = [2, 0, 0, 0, 0, 7]" by (simp add: example_msg_def)
  with discover_assigns [OF example_ok(2,3,5,6) r] example_gets [OF r] that r show ?thesis
    by (auto simp: send_reply_def)
qed

section \<open>Properties\<close>

text \<open>
  C1. Safety of the address assignment: whatever datagrams a server on an IPv4 subnet receives, at
  every point of its run no two clients hold the same address, and every lease is an address of
  the subnet.
\<close>

theorem Serve_leases_unique:
  assumes "ipv4_net sn" and "config_ok (New ip sn name file)"
    and "Serve (New ip sn name file) inputs = Returns (s, ds, e)"
  shows "(\<forall>m m' a a'. conns s m = Some a \<and> conns s m' = Some a' \<and> IP_Equal a a' \<longrightarrow> m = m') \<and>
    (\<forall>m a. conns s m = Some a \<longrightarrow> (\<exists>b. a = Some b \<and> length b = 4 \<and> Contains sn (Some b)))"
proof -
  from Serve_inv [OF server_inv_New [OF assms(1)] assms(2,3)] have inv: "server_inv s"
    and sn: "subnet (ips s) = sn"
    by (simp_all add: same_config_def New_def newIPAllocator_def)
  have leased: "\<exists>b. a = Some b \<and> length b = 4 \<and> Contains sn (Some b)" if "conns s m = Some a" for m a
    using leased_4 [OF inv that] inv sn by (auto simp: server_inv_def pool_inv_def)
  have "m = m'" if c: "conns s m = Some a" "conns s m' = Some a'" "IP_Equal a a'" for m m' a a'
  proof -
    from leased [OF c(1)] leased [OF c(2)] c(3) have "a = a'" by auto
    with c inv lease_table_unique show ?thesis by (metis server_inv_def)
  qed
  with leased show ?thesis by blast
qed

theorem Serve_leases_unique_witness:
  "\<exists>s ds e. Serve example_server [Received (packet_bytes (example_msg DHCPDiscover [192, 168, 1, 9]))
      (UDPAddr IPv4zero 68) None] = Returns (s, ds, e) \<and>
    (\<forall>m m' a a'. conns s m = Some a \<and> conns s m' = Some a' \<and> IP_Equal a a' \<longrightarrow> m = m')"
proof -
  obtain s ds e where r: "Serve example_server [Received (packet_bytes (example_msg DHCPDiscover [192, 168, 1, 9]))
      (UDPAddr IPv4zero 68) None] = Returns (s, ds, e)"
    using Serve_returns [OF example_ok(2-4)] by blast
  note new = example_New r [unfolded example_server_def]
  from Serve_leases_unique [OF example_ok(1) new(1,3)] r show ?thesis by blast
qed

text \<open>
  C12. No address is lost: at every point of a run the allocator holds exactly the addresses that
  are leased, so a released address can be leased again and an unleased one is always free.
\<close>

theorem Serve_no_leak:
  assumes "ipv4_net sn" and "config_ok (New ip sn name file)"
    and "Serve (New ip sn name file) inputs = Returns (s, ds, e)"
  shows "held (ips s) = {b. \<exists>m. conns s m = Some (Some b)}"
proof -
  from Serve_inv [OF server_inv_New [OF assms(1)] assms(2,3)] have "server_inv s" ..
  from server_inv_held [OF this] show ?thesis by (simp add: set_eq_iff)
qed

theorem Serve_no_leak_witness:
  "\<exists>s ds e. Serve example_server [Received (packet_bytes (example_msg DHCPDiscover [192, 168, 1, 9]))
      (UDPAddr IPv4zero 68) None] = Returns (s, ds, e) \<and>
    held (ips s) = {b. \<exists>m. conns s m = Some (Some b)}"
proof -
  obtain s ds e where r: "Serve example_server [Received (packet_bytes (example_msg DHCPDiscover [192, 168, 1, 9]))
      (UDPAddr IPv4zero 68) None] = Returns (s, ds, e)"
    using Serve_returns [OF example_ok(2-4)] by blast
  note new = example_New r [unfolded example_server_def]
  from Serve_no_leak [OF example_ok(1) new(1,3)] r show ?thesis by blast
qed

text \<open>
  C6. No input can bring the server down: with an IPv4 address of its own, names that fit, and an
  IPv4 subnet that is not the whole address space, \<open>Serve\<close> handles every sequence of datagrams,
  however malformed, without a panic and without getting stuck; and the only errors with which it
  ends are those of the connection and of a sender whose address is not a UDP address.
\<close>

theorem Serve_robust:
  assumes "ipv4_net sn" and "config_ok (New ip sn name file)" and "proper_subnet (New ip sn name file)"
  shows "\<exists>s ds e. Serve (New ip sn name file) inputs = Returns (s, ds, e) \<and>
    (e = None \<or> e \<in> (\<Union>i \<in> set inputs. input_errors i))"
  using Serve_returns [OF server_inv_New [OF assms(1)] assms(2,3)]
    Serve_errors [OF server_inv_New [OF assms(1)] assms(2)] by metis

theorem Serve_robust_witness:
  "ipv4_net example_net \<and> config_ok (New (Some [192, 168, 0, 1]) example_net [] []) \<and>
    (\<exists>s ds. Serve (New (Some [192, 168, 0, 1]) example_net [] [])
      [Received [1, 2, 3] (UDPAddr IPv4zero 68) None, Received (replicate 2000 255) (UDPAddr None 0) None]
      = Returns (s, ds, None))"
  using Serve_robust [OF example_ok(1) example_New, of "[Received [1, 2, 3] (UDPAddr IPv4zero 68) None,
      Received (replicate 2000 255) (UDPAddr None 0) None]"] example_ok(1) example_New(1) by auto

text \<open>
  C8. A Discover of a received packet is answered by an Offer, and only if the client then has a
  lease: the datagram goes back to the sender (to the broadcast address if the sender has none),
  and decodes to a reply with the transaction, hardware address and relay of the request, the
  identity of the server and the leased address. No other lease changes.
\<close>

theorem discover_offer:
  assumes "server_inv s" and "config_ok s" and "received_packet pkt"
    and "GetDHCPMessageType (Opts pkt) = DHCPDiscover"
    and "serve_packet s pkt (UDPAddr a port) werr = Returns (s', d, e)"
  shows "case getIP s' (CHAddr pkt) of
      None \<Rightarrow> d = None \<and> e = None \<and> conns s' = conns s
    | Some yi \<Rightarrow> conns s' = (conns s)(getMac (CHAddr pkt) \<mapsto> Some yi) \<and>
        (\<exists>bs re. d = Some (bs, UDPAddr (if IP_Equal a IPv4zero then IPv4bcast else a) port) \<and> e = werr \<and>
          ParsePacket bs = Inr re \<and> answers s pkt re DHCPOffer (Some yi))"
proof -
  note a = discover_assigns [OF assms]
  note i = assign_ip_inv [OF assms(1) conjunct1 [OF a]]
  show ?thesis
  proof (cases "getIP s' (CHAddr pkt)")
    case (Some yi)
    with a i sent_reply [OF assms(2,3), of None "Some yi" a port werr DHCPOffer]
    show ?thesis by (auto simp: field_of_lease)
  qed (use a i in simp)
qed

theorem discover_offer_witness:
  "\<exists>s' d. serve_packet example_server (example_msg DHCPDiscover [192, 168, 1, 9]) (UDPAddr IPv4zero 68) None =
      Returns (s', d, None) \<and> getIP s' [2, 0, 0, 0, 0, 7] = Some [192, 168, 1, 9] \<and>
    (\<exists>bs re. d = Some (bs, UDPAddr IPv4bcast 68) \<and> ParsePacket bs = Inr re \<and>
      answers example_server (example_msg DHCPDiscover [192, 168, 1, 9]) re DHCPOffer (Some [192, 168, 1, 9]))"
proof -
  obtain s' d e where r: "serve_packet example_server (example_msg DHCPDiscover [192, 168, 1, 9])
      (UDPAddr IPv4zero 68) None = Returns (s', d, e)" by (rule example_serve)
  from discover_offer [OF example_ok(2,3,5,6) r] example_gets [OF r] r show ?thesis
    by (auto simp: example_msg_def)
qed

text \<open>
  C10. The choice of the offered address in a subnet that is a network address with a prefix mask:
  a client that has a lease is offered it again and nothing changes, so a repeated Discover is
  harmless; otherwise the requested address if it is a free one of the subnet; otherwise the
  lowest free address of the subnet, and nothing exactly when there is none.
\<close>

theorem discover_choice:
  assumes "server_inv s" and "config_ok s" and "received_packet pkt" and "cidr_net k (subnet (ips s))"
    and "GetDHCPMessageType (Opts pkt) = DHCPDiscover"
    and "serve_packet s pkt addr werr = Returns (s', d, e)"
  shows "let yi = getIP s' (CHAddr pkt);
      is_free = (\<lambda>b. length b = 4 \<and> Contains (subnet (ips s)) (Some b) \<and> (\<forall>m. conns s m \<noteq> Some (Some b))) in
    if conns s (getMac (CHAddr pkt)) \<noteq> None then conns s (getMac (CHAddr pkt)) = Some yi \<and> s' = s
    else if \<exists>b. GetRequestedIPAddress (Opts pkt) = Some b \<and> is_free b then yi = GetRequestedIPAddress (Opts pkt)
    else (case yi of
        None \<Rightarrow> \<forall>b. \<not> is_free b
      | Some b \<Rightarrow> is_free b \<and> (\<forall>c. is_free c \<longrightarrow> be_val b \<le> be_val c))"
  using assign_ip_lowest [OF assms(1,4) conjunct1 [OF discover_assigns [OF assms(1-3,5,6)]]]
  by (simp only: Let_def free_addr_def)

theorem discover_choice_witness:
  "\<exists>s' d e. serve_packet example_server (example_msg DHCPDiscover [10, 0, 0, 1]) OtherAddr None =
      Returns (s', d, e) \<and> cidr_net 8 (subnet (ips example_server)) \<and>
    (\<forall>b. getIP s' [2, 0, 0, 0, 0, 7] = Some b \<longrightarrow> be_val b \<le> be_val [192, 168, 1, 0])"
proof -
  obtain s' d e where r: "serve_packet example_server (example_msg DHCPDiscover [10, 0, 0, 1])
      OtherAddr None = Returns (s', d, e)" by (rule example_serve)
  have out: "\<not> Contains (subnet (ips example_server)) (Some [10, 0, 0, 1])"
    "Contains (subnet (ips example_server)) (Some [192, 168, 1, 0])"
    by (simp_all add: example_subnet Contains_ipv4 example_ok(1)) (simp_all add: example_net_def masked_def)
  have new: "conns example_server = Map.empty" by (simp add: example_server_def New_def)
  have req: "GetRequestedIPAddress (Opts (example_msg DHCPDiscover [10, 0, 0, 1])) = Some [10, 0, 0, 1]"
    by (simp add: example_requests)
  from discover_choice [OF example_ok(2,3,5) example_cidr example_ok(6) r] out new req r example_cidr
  show ?thesis by (auto simp: Let_def example_msg_def split: option.splits)
qed

text \<open>
  C9. A Request is answered by an ACK exactly when the address it asks for is the lease of the
  client, and by a NAK otherwise; the ACK carries the leased address, the NAK none, and the leases
  do not change. A client without a lease and without a requested address counts as matching
  (two nil addresses are equal): it is sent an ACK for the address 0.0.0.0.
\<close>

theorem request_reply:
  assumes "server_inv s" and "config_ok s" and "received_packet pkt"
    and "GetDHCPMessageType (Opts pkt) = DHCPRequest"
  shows "\<exists>bs re. serve_packet s pkt (UDPAddr a port) werr =
      Returns (s, Some (bs, UDPAddr (if IP_Equal a IPv4zero then IPv4bcast else a) port), werr) \<and>
    ParsePacket bs = Inr re \<and>
    (case (GetRequestedIPAddress (Opts pkt), getIP s (CHAddr pkt)) of
       (Some rip, Some ip) \<Rightarrow>
         if rip = ip then answers s pkt re DHCPACK (Some ip)
         else answers s pkt re DHCPNAK (Some [0, 0, 0, 0])
     | (None, None) \<Rightarrow> answers s pkt re DHCPACK (Some [0, 0, 0, 0])
     | _ \<Rightarrow> answers s pkt re DHCPNAK (Some [0, 0, 0, 0]))"
proof -
  let ?rip = "GetRequestedIPAddress (Opts pkt)" and ?ip = "getIP s (CHAddr pkt)"
  have 4: "ip_or_nil ?rip" "ip_or_nil ?ip" "ip_or_nil (CIAddr pkt)"
    using requested_4 getIP_4 [OF assms(1)] assms(3) by (auto simp: received_packet_def)
  note ack = sent_reply [OF assms(2,3) 4(3,2), of a port werr DHCPACK]
    and nak = sent_nak [OF assms(2,3), of a port werr]
  have zero: "ip4_field None = [0, 0, 0, 0]" by (simp add: ip4_field_def zeros_def numeral_eq_Suc)
  show ?thesis
  proof (cases "IP_Equal ?rip ?ip")
    case True
    with ack obtain bs re where "serve_packet s pkt (UDPAddr a port) werr =
        Returns (s, Some (bs, UDPAddr (if IP_Equal a IPv4zero then IPv4bcast else a) port), werr)"
      "ParsePacket bs = Inr re" "answers s pkt re DHCPACK (Some (ip4_field ?ip))"
      by (auto simp: request_replies [OF assms])
    with True 4 zero show ?thesis by (auto simp: field_of_lease split: option.split)
  next
    case False
    with nak obtain bs re where "serve_packet s pkt (UDPAddr a port) werr =
        Returns (s, Some (bs, UDPAddr (if IP_Equal a IPv4zero then IPv4bcast else a) port), werr)"
      "ParsePacket bs = Inr re" "answers s pkt re DHCPNAK (Some [0, 0, 0, 0])"
      by (auto simp: request_replies [OF assms])
    with False 4 show ?thesis by (auto split: option.split)
  qed
qed

theorem request_reply_witness:
  "\<exists>bs re. serve_packet example_server (example_msg DHCPRequest [192, 168, 1, 9]) (UDPAddr IPv4zero 68) None =
      Returns (example_server, Some (bs, UDPAddr IPv4bcast 68), None) \<and> ParsePacket bs = Inr re \<and>
    answers example_server (example_msg DHCPRequest [192, 168, 1, 9]) re DHCPNAK (Some [0, 0, 0, 0])"
proof -
  have none: "getIP example_server (CHAddr (example_msg DHCPRequest [192, 168, 1, 9])) = None"
    by (simp add: getIP_def example_server_def New_def)
  have req: "GetRequestedIPAddress (Opts (example_msg DHCPRequest [192, 168, 1, 9])) = Some [192, 168, 1, 9]"
    by (simp add: example_requests)
  show ?thesis
    using request_reply [OF example_ok(2,3,5) example_ok(6), of "[192, 168, 1, 9]" IPv4zero 68 None]
    unfolding none req by simp
qed

text \<open>
  C11. A Release or Decline ends the lease of the client: its address becomes free and can be
  leased again, every other lease stays, and nothing is sent.
\<close>

theorem release_ends_lease:
  assumes "server_inv s" and "GetDHCPMessageType (Opts pkt) \<in> {DHCPDecline, DHCPRelease}"
  shows "\<exists>s'. serve_packet s pkt addr werr = Returns (s', None, None) \<and> server_inv s' \<and>
    getIP s' (CHAddr pkt) = None \<and>
    (\<forall>m. m \<noteq> getMac (CHAddr pkt) \<longrightarrow> conns s' m = conns s m) \<and>
    (\<forall>b. getIP s (CHAddr pkt) = Some b \<longrightarrow> b \<in> held (ips s) \<and> held (ips s') = held (ips s) - {b})"
proof -
  obtain s' where r: "release s (CHAddr pkt) = Returns s'" "server_inv s'"
    "conns s' = (conns s)(getMac (CHAddr pkt) := None)"
    "held (ips s') = held (ips s) - {b. conns s (getMac (CHAddr pkt)) = Some (Some b)}"
    using release_inv [OF assms(1)] by metis
  have leased: "conns s (getMac (CHAddr pkt)) = Some (Some b)" if "getIP s (CHAddr pkt) = Some b" for b
    using that by (simp add: getIP_def split: option.splits)
  have "b \<in> held (ips s) \<and> held (ips s') = held (ips s) - {b}" if "getIP s (CHAddr pkt) = Some b" for b
    using leased [OF that] leased_4 [OF assms(1) leased [OF that]] r(4) by (simp add: Collect_conv_if)
  with r assms(2) show ?thesis by (auto simp: serve_packet_def Let_def getIP_def)
qed

theorem release_ends_lease_witness:
  "\<exists>s d e s'. serve_packet example_server (example_msg DHCPDiscover [192, 168, 1, 9]) (UDPAddr IPv4zero 68) None =
      Returns (s, d, e) \<and> [192, 168, 1, 9] \<in> held (ips s) \<and>
    serve_packet s (example_msg DHCPRelease []) OtherAddr None = Returns (s', None, None) \<and>
    [192, 168, 1, 9] \<notin> held (ips s')"
proof -
  obtain s d e where r: "serve_packet example_server (example_msg DHCPDiscover [192, 168, 1, 9])
      (UDPAddr IPv4zero 68) None = Returns (s, d, e)" by (rule example_serve)
  have inv: "server_inv s" using serve_packet_inv [OF example_ok(2,3,5) r] ..
  have "getIP s (CHAddr (example_msg DHCPRelease [])) = Some [192, 168, 1, 9]"
    using example_gets [OF r] by (simp add: example_msg_def)
  moreover have "GetDHCPMessageType (Opts (example_msg DHCPRelease [])) \<in> {DHCPDecline, DHCPRelease}"
    by (simp add: example_ok(6))
  ultimately show ?thesis using release_ends_lease [OF inv, of "example_msg DHCPRelease []" OtherAddr None] r
    by blast
qed

text \<open>
  Everything else is ignored: a datagram that is no DHCP packet, a message of a type that only
  servers send, an Inform, and a message of an unknown or missing type leave the server as it is
  and are not answered.
\<close>

lemma other_messages_ignored:
  assumes "\<And>pkt. ParsePacket (take maxMessageSize bs) = Inr pkt \<Longrightarrow>
    GetDHCPMessageType (Opts pkt) \<notin> {DHCPDiscover, DHCPRequest, DHCPDecline, DHCPRelease}"
  shows "serve_one s (Received bs addr werr) = Returns (s, None, None)"
proof (cases "ParsePacket (take maxMessageSize bs)")
  case (Inr pkt)
  with assms [OF Inr] show ?thesis by (simp add: serve_one_def serve_packet_def Let_def)
qed (simp add: serve_one_def)

text \<open>
  C7. The four-way exchange, over the wire and with any other traffic in between: a client that
  was sent an Offer and asks for the offered address gets an ACK for it, unless it gave the lease
  up or the connection failed in the meantime.
\<close>

theorem offer_then_ack:
  assumes "ipv4_net sn" and "config_ok (New ip sn name file)"
    and "Serve (New ip sn name file) before = Returns (s0, ds0, None)"
    and "serve_one s0 (Received disc addr None) = Returns (s1, Some (obs, oaddr), None)"
    and "ParsePacket (take maxMessageSize disc) = Inr dpkt"
    and "GetDHCPMessageType (Opts dpkt) = DHCPDiscover" and "ParsePacket obs = Inr offer"
    and "Serve s1 between = Returns (s2, ds2, None)"
    and "\<forall>i \<in> set between. \<not> input_gives_up i (getMac (CHAddr dpkt))"
    and "ParsePacket (take maxMessageSize req) = Inr rpkt" and "CHAddr rpkt = CHAddr dpkt"
    and "GetDHCPMessageType (Opts rpkt) = DHCPRequest"
    and "GetRequestedIPAddress (Opts rpkt) = YIAddr offer"
  shows "\<exists>bs ack raddr. serve_one s2 (Received req (UDPAddr a port) None) = Returns (s2, Some (bs, raddr), None) \<and>
    ParsePacket bs = Inr ack \<and> answers s2 rpkt ack DHCPACK (YIAddr offer)"
proof -
  from Serve_inv [OF server_inv_New [OF assms(1)] assms(2,3)] assms(2)
  have s0: "server_inv s0" "config_ok s0" by (auto simp: config_ok_same)
  from serve_one_inv [OF s0 assms(4)] s0 have s1: "server_inv s1" "config_ok s1" by (auto simp: config_ok_same)
  from Serve_inv [OF s1 assms(8)] s1 have s2: "server_inv s2" "config_ok s2" by (auto simp: config_ok_same)
  note pkts = ParsePacket_received [OF assms(5)] ParsePacket_received [OF assms(10)]
  have sp: "serve_packet s0 dpkt addr None = Returns (s1, Some (obs, oaddr), None)"
    using assms(4,5) by (simp add: serve_one_def)
  note d = discover_assigns [OF s0 pkts(1) assms(6) sp]
  obtain yi where yi: "getIP s1 (CHAddr dpkt) = Some yi" using d by (auto split: if_splits)
  then have lease: "conns s1 (getMac (CHAddr dpkt)) = Some (Some yi)"
    by (simp add: getIP_def split: option.splits)
  have "ip_or_nil (Some yi)" using getIP_4 [OF s1(1), of "CHAddr dpkt"] yi by simp
  moreover from d yi have "send_reply addr None (reply_packet s0 dpkt DHCPOffer None (Some yi)) =
      (Some (obs, oaddr), None)" by auto
  ultimately have "YIAddr offer = Some yi"
    using reply_answers [OF s0(2) pkts(1) ip_or_nil_simps(1) _ _ assms(7)] by (metis answers_def field_of_lease)
  moreover have "conns s2 (getMac (CHAddr rpkt)) = Some (Some yi)"
    using Serve_keeps_lease [OF s1 assms(8) lease] assms(9,11) by simp
  ultimately have "GetRequestedIPAddress (Opts rpkt) = Some yi" "getIP s2 (CHAddr rpkt) = Some yi"
    using assms(13) by (simp_all add: getIP_def)
  with request_replies [OF s2 pkts(2) assms(12)] sent_reply [OF s2(2) pkts(2), of "CIAddr rpkt" "Some yi" a port None DHCPACK]
    \<open>ip_or_nil (Some yi)\<close> pkts(2) \<open>YIAddr offer = Some yi\<close> assms(10)
  show ?thesis by (fastforce simp: serve_one_def field_of_lease received_packet_def)
qed

theorem offer_then_ack_witness:
  "\<exists>s obs offer bs ack raddr.
    serve_one example_server (Received (packet_bytes (example_msg DHCPDiscover [192, 168, 1, 9]))
      (UDPAddr IPv4zero 68) None) = Returns (s, Some (obs, UDPAddr IPv4bcast 68), None) \<and>
    ParsePacket obs = Inr offer \<and> YIAddr offer = Some [192, 168, 1, 9] \<and>
    serve_one s (Received (packet_bytes (example_msg DHCPRequest [192, 168, 1, 9])) (UDPAddr IPv4zero 68) None) =
      Returns (s, Some (bs, raddr), None) \<and> ParsePacket bs = Inr ack \<and>
    answers s (example_msg DHCPRequest [192, 168, 1, 9]) ack DHCPACK (YIAddr offer)"
proof -
  let ?ip = "[192, 168, 1, 9] :: byte list"
  let ?d = "example_msg DHCPDiscover ?ip" and ?r = "example_msg DHCPRequest ?ip"
  obtain s obs where r: "serve_packet example_server ?d (UDPAddr IPv4zero 68) None =
      Returns (s, Some (obs, UDPAddr IPv4bcast 68), None)" "getIP s [2, 0, 0, 0, 0, 7] = Some ?ip"
    by (rule example_offer)
  note a = discover_assigns [OF example_ok(2,3,5,6) r(1)]
  have ch: "CHAddr ?d = [2, 0, 0, 0, 0, 7]" "CHAddr ?r = CHAddr ?d" by (simp_all add: example_msg_def)
  note rp = example_ok(5) [of DHCPDiscover ?ip]
  obtain offer where o: "ParsePacket obs = Inr offer" "YIAddr offer = Some ?ip"
    using a r(2) ch(1) sent_reply [OF example_ok(3) rp, of None "Some ?ip" IPv4zero 68 None DHCPOffer]
    by (auto simp: answers_def field_of_lease)
  have req: "GetRequestedIPAddress (Opts ?r) = YIAddr offer" using o(2) by (simp add: example_requests)
  have rec: "ParsePacket (take maxMessageSize (packet_bytes (example_msg t ?ip))) = Inr (example_msg t ?ip)" for t
    by (simp add: example_received)
  have one: "serve_one example_server (Received (packet_bytes ?d) (UDPAddr IPv4zero 68) None) =
      Returns (s, Some (obs, UDPAddr IPv4bcast 68), None)" using r(1) rec by (simp add: serve_one_def)
  have between: "Serve s [] = Returns (s, [], None)" "Serve (New (Some [192, 168, 0, 1]) example_net [] []) [] =
      Returns (example_server, [], None)"
    by (simp_all add: example_server_def)
  show ?thesis
    using offer_then_ack [OF example_ok(1) example_New(1) between(2) one rec example_ok(6) o(1) between(1)
      _ rec ch(2) example_ok(6) req, of IPv4zero 68] one o by auto
qed

end
