(* ===== verification/EventSystem.thy ===== *)
theory EventSystem
  imports Prelude
begin

text \<open>
  Event systems: the runs and the reachable states of a labelled step relation, invariants of the
  state and of the history, and forward simulations along a function from detailed to abstract states.
  The server is proved correct against its specification, and the concurrent client against its
  functional model, through the locales of this theory.
\<close>

section \<open>Runs and reachable states\<close>

inductive run :: "('s \<Rightarrow> 'e \<Rightarrow> 's \<Rightarrow> bool) \<Rightarrow> 's \<Rightarrow> 'e list \<Rightarrow> 's \<Rightarrow> bool"
  for step :: "'s \<Rightarrow> 'e \<Rightarrow> 's \<Rightarrow> bool" where
  run_Nil: "run step s [] s"
| run_Cons: "step s e t \<Longrightarrow> run step t es u \<Longrightarrow> run step s (e # es) u"

inductive_simps run_Nil_iff [simp]: "run step s [] t"
inductive_simps run_Cons_iff: "run step s (e # es) t"

inductive reach :: "('s \<Rightarrow> bool) \<Rightarrow> ('s \<Rightarrow> 'e \<Rightarrow> 's \<Rightarrow> bool) \<Rightarrow> 's \<Rightarrow> bool"
  for init :: "'s \<Rightarrow> bool" and step :: "'s \<Rightarrow> 'e \<Rightarrow> 's \<Rightarrow> bool" where
  reach_init: "init s \<Longrightarrow> reach init step s"
| reach_step: "reach init step s \<Longrightarrow> step s e t \<Longrightarrow> reach init step t"

lemma run_concat: "run step s (es @ fs) u \<longleftrightarrow> (\<exists>t. run step s es t \<and> run step t fs u)"
  by (induction es arbitrary: s) (auto simp: run_Cons_iff)

lemma run_reach: "run step s es t \<Longrightarrow> reach init step s \<Longrightarrow> reach init step t"
  by (induction rule: run.induct) (auto intro: reach_step)

lemma reach_iff_run: "reach init step t \<longleftrightarrow> (\<exists>s es. init s \<and> run step s es t)"
proof
  assume "reach init step t"
  then show "\<exists>s es. init s \<and> run step s es t"
  proof (induction rule: reach.induct)
    case (reach_step s e t)
    then obtain s0 es where "init s0" "run step s0 (es @ [e]) t"
      by (auto simp: run_concat run_Cons_iff)
    then show ?case by blast
  qed (auto intro: run_Nil)
qed (auto intro: run_reach reach_init)

section \<open>Invariants and simulations\<close>

locale invariant_system =
  fixes init :: "'s \<Rightarrow> bool" and step :: "'s \<Rightarrow> 'e \<Rightarrow> 's \<Rightarrow> bool" and good :: "'s \<Rightarrow> bool"
  assumes init_inv: "init s \<Longrightarrow> good s"
    and step_inv: "good s \<Longrightarrow> step s e t \<Longrightarrow> good t"
begin

lemma reach_inv: "reach init step s \<Longrightarrow> good s"
  by (induction rule: reach.induct) (auto intro: init_inv step_inv)

lemma run_inv: "run step s es t \<Longrightarrow> good s \<Longrightarrow> good t"
  by (induction rule: run.induct) (auto intro: step_inv)

end

text \<open>
  An invariant that speaks of the state and of the events that have led to it.
\<close>

locale history_invariant =
  fixes init :: "'s \<Rightarrow> bool" and step :: "'s \<Rightarrow> 'e \<Rightarrow> 's \<Rightarrow> bool" and linked :: "'e list \<Rightarrow> 's \<Rightarrow> bool"
  assumes init_linked: "init s \<Longrightarrow> linked [] s"
    and step_linked: "reach init step s \<Longrightarrow> linked es s \<Longrightarrow> step s e t \<Longrightarrow> linked (es @ [e]) t"
begin

lemma run_linked: "init s \<Longrightarrow> run step s es t \<Longrightarrow> linked es t"
proof (induction es arbitrary: t rule: rev_induct)
  case (snoc e es)
  then obtain u where u: "run step s es u" "step u e t" by (auto simp: run_concat run_Cons_iff)
  with snoc show ?case by (blast intro: step_linked run_reach reach_init)
qed (auto intro: init_linked)

end

text \<open>
  A simulation relates every step to an abstract one that leads to the image of the new state;
  \<open>sees\<close> says which abstract events an observer may take a detailed one for.
\<close>

locale simulation = invariant_system init step good
  for init :: "'s \<Rightarrow> bool" and step :: "'s \<Rightarrow> 'e \<Rightarrow> 's \<Rightarrow> bool" and good :: "'s \<Rightarrow> bool" +
  fixes abstr :: "'s \<Rightarrow> 'a" and ainit :: "'a \<Rightarrow> bool" and astep :: "'a \<Rightarrow> 'f \<Rightarrow> 'a \<Rightarrow> bool"
    and sees :: "'e \<Rightarrow> 'f \<Rightarrow> bool"
  assumes init_sim: "init s \<Longrightarrow> ainit (abstr s)"
    and step_sim: "good s \<Longrightarrow> step s e t \<Longrightarrow> \<exists>f. astep (abstr s) f (abstr t) \<and> sees e f"
begin

lemma run_sim:
  "run step s es t \<Longrightarrow> good s \<Longrightarrow> \<exists>fs. run astep (abstr s) fs (abstr t) \<and> list_all2 sees es fs"
proof (induction rule: run.induct)
  case (run_Cons s e t es u)
  obtain f where "astep (abstr s) f (abstr t)" "sees e f"
    using step_sim [OF run_Cons.prems run_Cons.hyps(1)] by blast
  moreover obtain fs where "run astep (abstr t) fs (abstr u)" "list_all2 sees es fs"
    using run_Cons.IH step_inv [OF run_Cons.prems run_Cons.hyps(1)] by blast
  ultimately show ?case by (intro exI [of _ "f # fs"]) (auto intro: run.run_Cons)
qed (auto intro: run_Nil)

lemma reach_sim: "reach init step s \<Longrightarrow> reach ainit astep (abstr s)"
proof -
  assume "reach init step s"
  then obtain s0 es where s0: "init s0" "run step s0 es s" by (auto simp only: reach_iff_run)
  from run_sim [OF s0(2) init_inv [OF s0(1)]] obtain fs where "run astep (abstr s0) fs (abstr s)" by blast
  then show ?thesis using reach_init [of ainit, OF init_sim [OF s0(1)]] by (rule run_reach)
qed

text \<open>What holds in every reachable abstract state holds of every reachable detailed one.\<close>

lemma inv_transfer: "invariant_system ainit astep J \<Longrightarrow> reach init step s \<Longrightarrow> J (abstr s)"
  by (rule invariant_system.reach_inv [OF _ reach_sim])

end

end
