(* ===== verification/LeaseSpec.thy ===== *)
theory LeaseSpec
  imports EventSystem NetIP
begin

text \<open>
  The specification of the server: a table of leases over a pool of addresses, and the events by
  which it may change. It says nothing about packets, allocators or the order in which addresses
  are tried; a client is whatever identifies one.
\<close>

section \<open>Leases\<close>

record 'm lease_db =
  pool :: "byte list set"
  leases :: "'m \<rightharpoonup> byte list"

datatype 'm lease_event =
    Offered 'm net_IP "byte list"
  | Refused 'm
  | Acked 'm net_IP
  | Naked 'm net_IP
  | Ended 'm
  | Ignored

definition free_in :: "'m lease_db \<Rightarrow> byte list \<Rightarrow> bool" where
  "free_in db b \<longleftrightarrow> b \<in> pool db \<and> b \<notin> ran (leases db)"

text \<open>
  An offer renews the lease of the client, or gives it the address it asked for if that one is free
  and else the lowest free one; a client is refused only if there is none. An address is confirmed
  exactly if it is the lease of the client.
\<close>

inductive lease_step :: "'m lease_db \<Rightarrow> 'm lease_event \<Rightarrow> 'm lease_db \<Rightarrow> bool" where
  renew: "leases db m = Some b \<Longrightarrow> lease_step db (Offered m r b) db"
| give_requested: "leases db m = None \<Longrightarrow> free_in db b \<Longrightarrow>
    lease_step db (Offered m (Some b) b) (db\<lparr>leases := (leases db)(m \<mapsto> b)\<rparr>)"
| give_lowest: "leases db m = None \<Longrightarrow> (\<And>c. r = Some c \<Longrightarrow> \<not> free_in db c) \<Longrightarrow> free_in db b \<Longrightarrow>
    (\<And>c. free_in db c \<Longrightarrow> be_val b \<le> be_val c) \<Longrightarrow>
    lease_step db (Offered m r b) (db\<lparr>leases := (leases db)(m \<mapsto> b)\<rparr>)"
| refuse: "leases db m = None \<Longrightarrow> (\<And>b. \<not> free_in db b) \<Longrightarrow> lease_step db (Refused m) db"
| ack: "leases db m = r \<Longrightarrow> lease_step db (Acked m r) db"
| nak: "leases db m \<noteq> r \<Longrightarrow> lease_step db (Naked m r) db"
| finish: "lease_step db (Ended m) (db\<lparr>leases := (leases db)(m := None)\<rparr>)"
| ignore: "lease_step db Ignored db"

inductive_cases lease_step_Acked: "lease_step db (Acked m r) db'"

definition lease_init :: "'m lease_db \<Rightarrow> bool" where
  "lease_init db \<longleftrightarrow> leases db = Map.empty"

section \<open>Exclusive leases\<close>

definition lease_inv :: "'m lease_db \<Rightarrow> bool" where
  "lease_inv db \<longleftrightarrow> ran (leases db) \<subseteq> pool db \<and> inj_on (leases db) (dom (leases db)) \<and> finite (dom (leases db))"

lemma inj_on_give:
  "inj_on f (dom f) \<Longrightarrow> b \<notin> ran f \<Longrightarrow> inj_on (f(m \<mapsto> b)) (dom (f(m \<mapsto> b)))"
  by (auto simp: inj_on_def ran_def)

lemma lease_inv_give:
  "lease_inv db \<Longrightarrow> leases db m = None \<Longrightarrow> free_in db b \<Longrightarrow>
    lease_inv (db\<lparr>leases := (leases db)(m \<mapsto> b)\<rparr>)"
  using inj_on_give [of "leases db" b m] by (auto simp: lease_inv_def free_in_def)

lemma lease_inv_end: "lease_inv db \<Longrightarrow> lease_inv (db\<lparr>leases := (leases db)(m := None)\<rparr>)"
  by (auto simp: lease_inv_def ran_def inj_on_def)

interpretation leasing: invariant_system lease_init lease_step lease_inv
proof
  show "lease_inv db" if "lease_init db" for db :: "'m lease_db"
    using that by (simp add: lease_init_def lease_inv_def)
  show "lease_inv db'" if "lease_inv db" "lease_step db e db'" for db db' :: "'m lease_db" and e
    using that(2,1) by (induction rule: lease_step.induct) (auto intro: lease_inv_give lease_inv_end)
qed

section \<open>The history of a lease\<close>

text \<open>The lease of a client is what the events of a run say it is.\<close>

fun lease_after :: "'m \<Rightarrow> byte list option \<Rightarrow> 'm lease_event list \<Rightarrow> byte list option" where
  "lease_after m l [] = l"
| "lease_after m l (e # es) = lease_after m
     (case e of Offered m' _ b \<Rightarrow> if m' = m then Some b else l
      | Ended m' \<Rightarrow> if m' = m then None else l
      | _ \<Rightarrow> l) es"

lemma lease_after_run:
  "run lease_step db es db' \<Longrightarrow> leases db' m = lease_after m (leases db m) es"
proof (induction rule: run.induct)
  case (run_Cons db e db1 es db2)
  from run_Cons.hyps(1) have "leases db1 m = lease_after m (leases db m) [e]"
    by (cases rule: lease_step.cases) auto
  with run_Cons.IH show ?case by (cases e) auto
qed simp

lemma lease_after_snoc: "lease_after m l (es @ [e]) = lease_after m (lease_after m l es) [e]"
  by (induction es arbitrary: l) simp_all

text \<open>A client that holds an address was offered it, and has not ended its lease since.\<close>

lemma lease_after_offered:
  "lease_after m None es = Some b \<Longrightarrow> \<exists>es1 r es2. es = es1 @ Offered m r b # es2 \<and> Ended m \<notin> set es2"
proof (induction es rule: rev_induct)
  case (snoc e es)
  have last: "lease_after m (lease_after m None es) [e] = Some b"
    using snoc.prems by (simp only: lease_after_snoc)
  show ?case
  proof (cases "\<exists>r. e = Offered m r b")
    case False
    with last have "lease_after m None es = Some b" "e \<noteq> Ended m"
      by (cases e; auto split: if_splits)+
    with snoc.IH obtain es1 r es2 where "es = es1 @ Offered m r b # es2" "Ended m \<notin> set es2" by blast
    with \<open>e \<noteq> Ended m\<close> show ?thesis by (intro exI [of _ es1] exI [of _ r] exI [of _ "es2 @ [e]"]) auto
  qed fastforce
qed simp

lemma acked_was_offered:
  assumes "run lease_step db (es @ [Acked m (Some b)]) db'" and "lease_init db"
  shows "\<exists>es1 r es2. es = es1 @ Offered m r b # es2 \<and> Ended m \<notin> set es2"
proof -
  obtain db1 where db1: "run lease_step db es db1" "lease_step db1 (Acked m (Some b)) db'"
    using assms(1) by (auto simp: run_concat run_Cons_iff)
  from db1(2) have "leases db1 m = Some b" by (rule lease_step_Acked) simp
  with lease_after_run [OF db1(1), of m] assms(2) show ?thesis
    by (intro lease_after_offered) (simp add: lease_init_def)
qed

end
