(* ===== verification/ServerRefine.thy ===== *)
theory ServerRefine
  imports ServerSpec LeaseSpec
begin

text \<open>
  The message loop of the server as an event system, and the proof that it implements the
  specification of \<^theory_text>\<open>LeaseSpec\<close>: every run of \<open>Serve\<close> is a run of the specification, with the
  datagrams as the visible part of its events.
\<close>

section \<open>The loop as a step relation\<close>

text \<open>
  A state is the server and, once the loop has returned, the error it returned with. An event is
  an input together with what was sent and returned for it.
\<close>

type_synonym loop_state = "Server \<times> go_error option"
type_synonym serve_event = "serve_input \<times> datagram option \<times> go_error option"

inductive server_step :: "loop_state \<Rightarrow> serve_event \<Rightarrow> loop_state \<Rightarrow> bool" where
  "serve_one s i = Returns (s', d, e) \<Longrightarrow> server_step (s, None) (i, d, e) (s', e)"

inductive_simps server_step_iff: "server_step st (i, d, e) st'"

definition datagrams :: "serve_event list \<Rightarrow> datagram list" where
  "datagrams es = concat (map (\<lambda>(i, d, e). case d of None \<Rightarrow> [] | Some d \<Rightarrow> [d]) es)"

lemma datagrams_simps [simp]:
  "datagrams [] = []" "datagrams ((i, d, e) # es) = (case d of None \<Rightarrow> [] | Some d \<Rightarrow> [d]) @ datagrams es"
  by (simp_all add: datagrams_def)

lemma run_stopped: "run server_step (s, Some x) es st \<longleftrightarrow> es = [] \<and> st = (s, Some x)"
  by (cases es) (auto simp: run_Cons_iff server_step.simps)

lemma Serve_Cons:
  "Serve s (i # inputs) = Returns (s', ds, e) \<longleftrightarrow>
    (\<exists>t d e1. serve_one s i = Returns (t, d, e1) \<and>
      (case e1 of
         None \<Rightarrow> \<exists>ds'. Serve t inputs = Returns (s', ds', e) \<and> ds = (case d of None \<Rightarrow> [] | Some d \<Rightarrow> [d]) @ ds'
       | Some x \<Rightarrow> s' = t \<and> ds = (case d of None \<Rightarrow> [] | Some d \<Rightarrow> [d]) \<and> e = Some x))"
proof (cases "serve_one s i")
  case (Returns r)
  obtain t d e1 where "r = (t, d, e1)" by (cases r)
  with Returns show ?thesis by (cases e1) (auto simp: Let_def outcome_simps)
qed simp_all

text \<open>The loop of the code and the runs of the event system are the same thing.\<close>

lemma Serve_run:
  "Serve s inputs = Returns (s', ds, e) \<longleftrightarrow>
    (\<exists>es rest. run server_step (s, None) es (s', e) \<and> inputs = map fst es @ rest \<and> ds = datagrams es \<and>
      (e = None \<longrightarrow> rest = []))"
proof (induction inputs arbitrary: s ds)
  case Nil
  show ?case by auto
next
  case (Cons i inputs)
  show ?case (is "_ \<longleftrightarrow> ?run")
  proof
    assume "Serve s (i # inputs) = Returns (s', ds, e)"
    then obtain t d e1 where one: "serve_one s i = Returns (t, d, e1)"
      and r: "case e1 of
         None \<Rightarrow> \<exists>ds'. Serve t inputs = Returns (s', ds', e) \<and> ds = (case d of None \<Rightarrow> [] | Some d \<Rightarrow> [d]) @ ds'
       | Some x \<Rightarrow> s' = t \<and> ds = (case d of None \<Rightarrow> [] | Some d \<Rightarrow> [d]) \<and> e = Some x"
      unfolding Serve_Cons by blast
    from one have step: "server_step (s, None) (i, d, e1) (t, e1)" by (rule server_step.intros)
    show ?run
    proof (cases e1)
      case None
      with r Cons.IH [of t] obtain es rest where "run server_step (t, None) es (s', e)"
        "inputs = map fst es @ rest" "ds = datagrams ((i, d, e1) # es)" "e = None \<longrightarrow> rest = []" by auto
      with step None show ?run by (intro exI [of _ "(i, d, e1) # es"]) (auto intro: run_Cons)
    next
      case (Some x)
      with r step show ?run by (intro exI [of _ "[(i, d, e1)]"]) (auto intro!: run_Cons run_Nil)
    qed
  next
    assume ?run
    then obtain es rest where es: "run server_step (s, None) es (s', e)" "i # inputs = map fst es @ rest"
      "ds = datagrams es" "e = None \<longrightarrow> rest = []" by blast
    then obtain d e1 t es' where ev: "es = (i, d, e1) # es'" "serve_one s i = Returns (t, d, e1)"
      "run server_step (t, e1) es' (s', e)" "inputs = map fst es' @ rest"
      by (cases es) (auto simp: run_Cons_iff server_step.simps)
    with es(3,4) Cons.IH [of t "datagrams es'"] show "Serve s (i # inputs) = Returns (s', ds, e)"
      unfolding Serve_Cons by (cases e1) (auto simp: run_stopped)
  qed
qed

section \<open>The leases that a server represents\<close>

definition leases_of :: "Server \<Rightarrow> macAddr lease_db" where
  "leases_of s = \<lparr>pool = {b. length b = 4 \<and> Contains (subnet (ips s)) (Some b)},
     leases = (\<lambda>m. case conns s m of Some ip \<Rightarrow> ip | None \<Rightarrow> None)\<rparr>"

lemma leases_of_lease: "leases (leases_of s) (getMac h) = getIP s h"
  by (simp add: leases_of_def getIP_def)

lemma leases_of_conns:
  "server_inv s \<Longrightarrow> leases (leases_of s) m = Some b \<longleftrightarrow> conns s m = Some (Some b)"
  by (auto simp: leases_of_def split: option.split)

lemma free_in_leases_of: "server_inv s \<Longrightarrow> free_in (leases_of s) b \<longleftrightarrow> free_addr s b"
  by (auto simp: free_in_def free_addr_def ran_def leases_of_conns) (auto simp: leases_of_def)

lemma leases_of_update:
  assumes "same_config s s'" and "conns s' = (conns s)(m := map_option Some ip)"
  shows "leases_of s' = (leases_of s)\<lparr>leases := (leases (leases_of s))(m := ip)\<rparr>"
  using assms by (cases ip) (auto simp: leases_of_def same_config_def)

section \<open>What the events show\<close>

fun event_packet :: "serve_input \<Rightarrow> Packet option" where
  "event_packet (ReadError e) = None"
| "event_packet (Received bs addr werr) = (case ParsePacket (take maxMessageSize bs) of
     Inl e \<Rightarrow> None | Inr pkt \<Rightarrow> Some pkt)"

text \<open>A reply was sent unless sending failed, and it reads as the given message to the client.\<close>

definition replied :: "Packet \<Rightarrow> datagram option \<Rightarrow> go_error option \<Rightarrow> DHCPMessageType \<Rightarrow> net_IP \<Rightarrow> bool" where
  "replied pkt d e typ yi \<longleftrightarrow> (d = None \<longrightarrow> e \<noteq> None) \<and>
     (\<forall>bs a. d = Some (bs, a) \<longrightarrow> (\<exists>re. ParsePacket bs = Inr re \<and> CHAddr re = CHAddr pkt \<and>
        TransactionID re = TransactionID pkt \<and> GetDHCPMessageType (Opts re) = typ \<and> YIAddr re = yi))"

fun sees_packet :: "Packet \<Rightarrow> datagram option \<Rightarrow> go_error option \<Rightarrow> macAddr lease_event \<Rightarrow> bool" where
  "sees_packet pkt d e (Offered m r b) \<longleftrightarrow> GetDHCPMessageType (Opts pkt) = DHCPDiscover \<and>
     m = getMac (CHAddr pkt) \<and> r = GetRequestedIPAddress (Opts pkt) \<and> replied pkt d e DHCPOffer (Some b)"
| "sees_packet pkt d e (Refused m) \<longleftrightarrow> GetDHCPMessageType (Opts pkt) = DHCPDiscover \<and>
     m = getMac (CHAddr pkt) \<and> d = None \<and> e = None"
| "sees_packet pkt d e (Acked m r) \<longleftrightarrow> GetDHCPMessageType (Opts pkt) = DHCPRequest \<and>
     m = getMac (CHAddr pkt) \<and> r = GetRequestedIPAddress (Opts pkt) \<and> replied pkt d e DHCPACK (Some (ip4_field r))"
| "sees_packet pkt d e (Naked m r) \<longleftrightarrow> GetDHCPMessageType (Opts pkt) = DHCPRequest \<and>
     m = getMac (CHAddr pkt) \<and> r = GetRequestedIPAddress (Opts pkt) \<and> replied pkt d e DHCPNAK (Some [0, 0, 0, 0])"
| "sees_packet pkt d e (Ended m) \<longleftrightarrow> gives_up pkt m \<and> d = None \<and> e = None"
| "sees_packet pkt d e Ignored \<longleftrightarrow> d = None \<and> e = None \<and>
     GetDHCPMessageType (Opts pkt) \<notin> {DHCPDiscover, DHCPRequest, DHCPDecline, DHCPRelease}"

fun sees :: "serve_event \<Rightarrow> macAddr lease_event \<Rightarrow> bool" where
  "sees (i, d, e) f \<longleftrightarrow> (case event_packet i of
     None \<Rightarrow> f = Ignored \<and> d = None
   | Some pkt \<Rightarrow> sees_packet pkt d e f)"

section \<open>Every step is a step of the specification\<close>

lemma replied_reply:
  assumes "config_ok s" and "received_packet pkt" and "ip_or_nil ci" and "ip_or_nil yi"
    and "(d, e) = send_reply addr werr (reply_packet s pkt typ ci yi)"
  shows "replied pkt d e typ (Some (ip4_field yi))"
proof (cases addr)
  case (UDPAddr a port)
  with sent_reply [OF assms(1-4), of a port werr "typ"] assms(5) show ?thesis
    by (auto simp: replied_def answers_def)
qed (use assms(5) in \<open>simp add: replied_def send_reply_def\<close>)

lemma replied_nak:
  assumes "config_ok s" and "received_packet pkt" and "(d, e) = send_reply addr werr (nak_packet s pkt)"
  shows "replied pkt d e DHCPNAK (Some [0, 0, 0, 0])"
proof (cases addr)
  case (UDPAddr a port)
  with sent_nak [OF assms(1,2), of a port werr] assms(3) show ?thesis
    by (auto simp: replied_def answers_def)
qed (use assms(3) in \<open>simp add: replied_def send_reply_def\<close>)

lemma discover_sim:
  assumes "server_inv s" and "config_ok s" and "cidr_net k (subnet (ips s))" and "received_packet pkt"
    and "GetDHCPMessageType (Opts pkt) = DHCPDiscover"
    and "serve_packet s pkt addr werr = Returns (s', d, e)"
  shows "\<exists>f. lease_step (leases_of s) f (leases_of s') \<and> sees_packet pkt d e f"
proof -
  let ?m = "getMac (CHAddr pkt)" and ?r = "GetRequestedIPAddress (Opts pkt)"
  note a = discover_assigns [OF assms(1,2,4-6)]
  note i = assign_ip_inv [OF assms(1) conjunct1 [OF a]] and c = assign_ip_lowest [OF assms(1,3) conjunct1 [OF a]]
    and free = free_in_leases_of [OF assms(1)]
  have new: "leases (leases_of s) ?m = None" if "conns s ?m = None"
    using that by (simp add: leases_of_def)
  show ?thesis
  proof (cases "getIP s' (CHAddr pkt)")
    case None
    with leased_4 [OF assms(1), of ?m None] c have "conns s ?m = None" "\<And>b. \<not> free_addr s b" by (auto split: if_splits)
    moreover from i None have "leases_of s' = leases_of s" by (auto simp: leases_of_def same_config_def)
    ultimately show ?thesis
      using a None assms(5) by (intro exI [of _ "Refused ?m"]) (auto simp: free new intro: refuse)
  next
    case (Some b)
    with i have "ip4_field (Some b) = b" by (simp add: field_of_lease)
    with replied_reply [OF assms(2,4), of None "Some b" d e addr werr DHCPOffer] a i Some
    have sees: "sees_packet pkt d e (Offered ?m ?r b)" using assms(5) by simp
    have upd: "leases_of s' = (leases_of s)\<lparr>leases := (leases (leases_of s))(?m := Some b)\<rparr>"
      using i Some by (intro leases_of_update) auto
    have "lease_step (leases_of s) (Offered ?m ?r b) (leases_of s')"
    proof (cases "conns s ?m")
      case None
      show ?thesis
      proof (cases "\<exists>b. ?r = Some b \<and> free_addr s b")
        case True
        with c None Some show ?thesis
          unfolding upd by (auto simp: free new intro!: give_requested)
      next
        case False
        with c None Some show ?thesis
          unfolding upd by (intro give_lowest) (auto simp: free new)
      qed
    next
      case (Some ip)
      with c \<open>getIP _ _ = _\<close> have "s' = s" "leases (leases_of s) ?m = Some b"
        by (auto simp: leases_of_def)
      then show ?thesis by (auto intro: renew)
    qed
    with sees show ?thesis by blast
  qed
qed

lemma request_sim:
  assumes "server_inv s" and "config_ok s" and "received_packet pkt"
    and "GetDHCPMessageType (Opts pkt) = DHCPRequest"
    and "serve_packet s pkt addr werr = Returns (s', d, e)"
  shows "\<exists>f. lease_step (leases_of s) f (leases_of s') \<and> sees_packet pkt d e f"
proof -
  let ?m = "getMac (CHAddr pkt)" and ?r = "GetRequestedIPAddress (Opts pkt)" and ?l = "getIP s (CHAddr pkt)"
  have r: "s' = s" "(d, e) = send_reply addr werr
      (if IP_Equal ?r ?l then reply_packet s pkt DHCPACK (CIAddr pkt) ?l else nak_packet s pkt)"
    using request_replies [OF assms(1-4)] assms(5) by auto
  have 4: "ip_or_nil ?r" "ip_or_nil ?l" "ip_or_nil (CIAddr pkt)"
    using requested_4 getIP_4 [OF assms(1)] assms(3) by (auto simp: received_packet_def)
  then have eq: "IP_Equal ?r ?l \<longleftrightarrow> ?r = ?l" by (cases ?r; cases ?l) auto
  show ?thesis
  proof (cases "?r = ?l")
    case True
    with r eq replied_reply [OF assms(2,3) 4(3,2)] have "replied pkt d e DHCPACK (Some (ip4_field ?r))" by simp
    with True r(1) assms(4) show ?thesis
      by (intro exI [of _ "Acked ?m ?r"]) (auto intro: ack simp: leases_of_lease)
  next
    case False
    with r eq replied_nak [OF assms(2,3)] have "replied pkt d e DHCPNAK (Some [0, 0, 0, 0])" by simp
    with False r(1) assms(4) show ?thesis
      by (intro exI [of _ "Naked ?m ?r"]) (auto intro: nak simp: leases_of_lease)
  qed
qed

lemma release_sim:
  assumes "server_inv s" and "GetDHCPMessageType (Opts pkt) \<in> {DHCPDecline, DHCPRelease}"
    and "serve_packet s pkt addr werr = Returns (s', d, e)"
  shows "\<exists>f. lease_step (leases_of s) f (leases_of s') \<and> sees_packet pkt d e f"
proof -
  let ?m = "getMac (CHAddr pkt)"
  have r: "release s (CHAddr pkt) = Returns s'" "d = None" "e = None"
    using assms(2,3) by (auto simp: serve_packet_def Let_def outcome_simps)
  obtain t where "release s (CHAddr pkt) = Returns t" "same_config s t" "conns t = (conns s)(?m := None)"
    using release_inv [OF assms(1)] by metis
  with r leases_of_update [of s s' ?m None]
  have "leases_of s' = (leases_of s)\<lparr>leases := (leases (leases_of s))(?m := None)\<rparr>" by simp
  with r assms(2) show ?thesis
    by (intro exI [of _ "Ended ?m"]) (auto simp: gives_up_def intro: finish)
qed

lemma serve_packet_sim:
  assumes "server_inv s" and "config_ok s" and "cidr_net k (subnet (ips s))" and "received_packet pkt"
    and "serve_packet s pkt addr werr = Returns (s', d, e)"
  shows "\<exists>f. lease_step (leases_of s) f (leases_of s') \<and> sees_packet pkt d e f"
proof -
  let ?t = "GetDHCPMessageType (Opts pkt)"
  consider "?t = DHCPDiscover" | "?t = DHCPRequest" | "?t \<in> {DHCPDecline, DHCPRelease}"
    | (other) "?t \<notin> {DHCPDiscover, DHCPRequest, DHCPDecline, DHCPRelease}" by auto
  then show ?thesis
  proof cases
    case other
    with assms(5) have "s' = s" "d = None" "e = None" by (auto simp: serve_packet_def Let_def split: if_splits)
    with other show ?thesis by (intro exI [of _ Ignored]) (auto intro: ignore)
  qed (use discover_sim [OF assms(1-4) _ assms(5)] request_sim [OF assms(1,2,4) _ assms(5)]
      release_sim [OF assms(1) _ assms(5)] in \<open>simp_all\<close>)
qed

text \<open>The states of the loop that a server in a CIDR network can be in, and its initial ones.\<close>

definition loop_good :: "loop_state \<Rightarrow> bool" where
  "loop_good st \<longleftrightarrow> server_inv (fst st) \<and> config_ok (fst st) \<and> (\<exists>k. cidr_net k (subnet (ips (fst st))))"

definition loop_init :: "loop_state \<Rightarrow> bool" where
  "loop_init st \<longleftrightarrow> (\<exists>ip sn name file k. st = (New ip sn name file, None) \<and>
     config_ok (New ip sn name file) \<and> cidr_net k sn)"

lemma loop_init_good: "loop_init st \<Longrightarrow> loop_good st"
  using server_inv_New by (fastforce simp: loop_init_def loop_good_def cidr_net_def New_def newIPAllocator_def)

lemma loop_good_step: "loop_good st \<Longrightarrow> server_step st ev st' \<Longrightarrow> loop_good st'"
proof -
  assume good: "loop_good st" and "server_step st ev st'"
  then obtain s i s' d e where st: "st = (s, None)" "st' = (s', e)" "serve_one s i = Returns (s', d, e)"
    by (auto simp: server_step.simps)
  with good serve_one_inv [of s i s' d e] have s': "server_inv s'" "same_config s s'" by (auto simp: loop_good_def)
  with good st show ?thesis by (auto simp: loop_good_def config_ok_same) (auto simp: same_config_def)
qed

lemma server_step_sim:
  assumes "loop_good st" and "server_step st ev st'"
  shows "\<exists>f. lease_step (leases_of (fst st)) f (leases_of (fst st')) \<and> sees ev f"
proof -
  obtain s i s' d e where st: "st = (s, None)" "ev = (i, d, e)" "st' = (s', e)"
    and one: "serve_one s i = Returns (s', d, e)"
    using assms(2) by (auto simp: server_step.simps)
  from assms(1) st(1) obtain k where s: "server_inv s" "config_ok s" "cidr_net k (subnet (ips s))"
    by (auto simp: loop_good_def)
  show ?thesis
  proof (cases "event_packet i")
    case None
    then have "s' = s" "d = None"
      using one by (auto simp: serve_one_def split: serve_input.splits sum.splits)
    with None st show ?thesis by (intro exI [of _ Ignored]) (auto intro: ignore)
  next
    case (Some pkt)
    then obtain bs addr werr where i: "i = Received bs addr werr" "ParsePacket (take maxMessageSize bs) = Inr pkt"
      by (cases i) (auto split: sum.splits)
    with one have "serve_packet s pkt addr werr = Returns (s', d, e)" by (simp add: serve_one_def)
    from serve_packet_sim [OF s ParsePacket_received [OF i(2)] this] Some st show ?thesis by simp
  qed
qed

interpretation serving: simulation loop_init server_step loop_good "\<lambda>st. leases_of (fst st)" lease_init lease_step sees
proof
  show "lease_init (leases_of (fst st))" if "loop_init st" for st
    using that by (auto simp: loop_init_def lease_init_def leases_of_def New_def)
qed (fact loop_init_good loop_good_step server_step_sim)+

section \<open>Runs observed from outside\<close>

lemma sees_Ended: "sees (i, d, e) f \<Longrightarrow> input_gives_up i m \<Longrightarrow> f = Ended m"
  by (cases i; cases f) (auto simp: input_gives_up_def gives_up_def split: sum.splits)

lemma sees_Ack:
  assumes "sees (i, Some (bs, a), e) f" and "ParsePacket bs = Inr re" and "GetDHCPMessageType (Opts re) = DHCPACK"
  obtains r where "f = Acked (getMac (CHAddr re)) r" and "YIAddr re = Some (ip4_field r)" and "ip_or_nil r"
  using assms requested_4 by (cases f) (auto simp: replied_def split: option.splits)

lemma sees_Offer:
  assumes "sees (i, d, None) (Offered m r b)"
  obtains bs a re where "d = Some (bs, a)" and "ParsePacket bs = Inr re" and "getMac (CHAddr re) = m"
    and "GetDHCPMessageType (Opts re) = DHCPOffer" and "YIAddr re = Some b"
  using assms by (fastforce simp: replied_def split: option.splits)

text \<open>The loop only goes on after an event without error.\<close>

lemma run_no_error: "run server_step st (es @ fs) st' \<Longrightarrow> fs \<noteq> [] \<Longrightarrow> (i, d, e) \<in> set es \<Longrightarrow> e = None"
proof (induction es arbitrary: st)
  case (Cons ev es)
  then obtain st1 where "server_step st ev st1" "run server_step st1 (es @ fs) st'"
    by (auto simp: run_Cons_iff)
  then obtain i' d' e' s' where ev: "ev = (i', d', e')" "run server_step (s', e') (es @ fs) st'"
    by (auto elim: server_step.cases)
  with Cons.prems(2) have "e' = None" by (cases e') (auto simp: run_stopped)
  with Cons ev show ?case by auto
qed simp

lemma finite_run_lease_db:
  assumes "reach lease_init lease_step db" and "finite (pool db)"
  shows "card (dom (leases db)) \<le> card (pool db)"
proof -
  have i: "lease_inv db" using leasing.reach_inv [OF assms(1)] .
  then have "card (dom (leases db)) = card (leases db ` dom (leases db))"
    by (simp add: lease_inv_def card_image)
  also have "leases db ` dom (leases db) = Some ` ran (leases db)" by (force simp: ran_def image_iff)
  also have "card \<dots> = card (ran (leases db))" by (simp add: card_image)
  also have "\<dots> \<le> card (pool db)" using i assms(2) by (auto simp: lease_inv_def intro: card_mono)
  finally show ?thesis .
qed

lemma card_subnet:
  assumes "cidr_net k n"
  shows "finite {b. length b = 4 \<and> Contains n (Some b)}" and "card {b. length b = 4 \<and> Contains n (Some b)} \<le> 2 ^ k"
proof -
  let ?A = "{b. length b = 4 \<and> Contains n (Some b)}" and ?R = "{be_val (IPNet_IP n)..<be_val (IPNet_IP n) + 2 ^ k}"
  have "inj_on be_val ?A" by (auto simp: inj_on_def intro: be_val_inject)
  moreover have "be_val ` ?A \<subseteq> ?R" using cidr_Contains [OF assms] by auto
  ultimately show "finite ?A" "card ?A \<le> 2 ^ k"
    using inj_on_finite [of be_val ?A ?R] card_inj_on_le [of be_val ?A ?R] by auto
qed

section \<open>Properties\<close>

lemma example_chaddr: "CHAddr (example_msg t ip) = [2, 0, 0, 0, 0, 7]"
  by (simp add: example_msg_def)

lemma example_discovered:
  obtains s d where "Serve example_server [Received (packet_bytes (example_msg DHCPDiscover [192, 168, 1, 9]))
      (UDPAddr IPv4zero 68) None] = Returns (s, [(d, UDPAddr IPv4bcast 68)], None)"
    and "getIP s [2, 0, 0, 0, 0, 7] = Some [192, 168, 1, 9]"
proof -
  obtain s d where "serve_packet example_server (example_msg DHCPDiscover [192, 168, 1, 9]) (UDPAddr IPv4zero 68) None =
      Returns (s, Some (d, UDPAddr IPv4bcast 68), None)" "getIP s [2, 0, 0, 0, 0, 7] = Some [192, 168, 1, 9]"
    by (rule example_offer)
  with that show ?thesis by (simp add: serve_one_def example_received)
qed

lemma example_confirmed:
  obtains st ev bs re where "run server_step (example_server, None)
      [ev, (Received (packet_bytes (example_msg DHCPRequest [192, 168, 1, 9])) (UDPAddr IPv4zero 68) None,
        Some (bs, UDPAddr IPv4bcast 68), None)] st"
    and "ParsePacket bs = Inr re" and "GetDHCPMessageType (Opts re) = DHCPACK" and "YIAddr re = Some [192, 168, 1, 9]"
proof -
  let ?r = "example_msg DHCPRequest [192, 168, 1, 9]"
  obtain s d where s: "serve_one example_server (Received (packet_bytes (example_msg DHCPDiscover [192, 168, 1, 9]))
      (UDPAddr IPv4zero 68) None) = Returns (s, Some (d, UDPAddr IPv4bcast 68), None)"
    "getIP s [2, 0, 0, 0, 0, 7] = Some [192, 168, 1, 9]"
    using example_offer by (auto simp: serve_one_def example_received)
  from serve_one_inv [OF example_ok(2,3) s(1)] example_ok(3) have i: "server_inv s" "config_ok s"
    by (auto simp: config_ok_same)
  have ci: "ip_or_nil (CIAddr ?r)" and rp: "received_packet ?r" by (simp add: example_msg_def) (rule example_ok(5))
  obtain bs re where r: "send_reply (UDPAddr IPv4zero 68) None (reply_packet s ?r DHCPACK (CIAddr ?r) (Some [192, 168, 1, 9])) =
      (Some (bs, UDPAddr IPv4bcast 68), None)" "ParsePacket bs = Inr re" "answers s ?r re DHCPACK (Some [192, 168, 1, 9])"
    using sent_reply [OF i(2) rp ci, of "Some [192, 168, 1, 9]" IPv4zero 68 None DHCPACK]
    by (auto simp: field_of_lease)
  with request_replies [OF i example_ok(5) example_ok(6), of "[192, 168, 1, 9]" "UDPAddr IPv4zero 68" None] s(2)
  have "serve_one s (Received (packet_bytes ?r) (UDPAddr IPv4zero 68) None) = Returns (s, Some (bs, UDPAddr IPv4bcast 68), None)"
    by (simp add: serve_one_def example_received example_requests example_chaddr)
  from run_Cons [of server_step, OF server_step.intros [OF s(1)]
      run_Cons [of server_step, OF server_step.intros [OF this] run_Nil]]
  show ?thesis by (rule that) (use r in \<open>auto simp: answers_def\<close>)
qed

text \<open>
  C2. The server implements its specification: for a new server on a CIDR subnet (a 4-byte base address that is masked, as
  \<open>ParseCIDR\<close> makes it) with a configuration that can be sent, whatever arrives, the inputs that the loop consumed
  and the datagrams it sent correspond, one by one, to the events of a run of the lease table, from
  the empty table to the leases that the server then has. In particular an address is only leased
  if it is free, the address asked for is preferred, a client is left without an answer only if
  every address is leased, and a Request is confirmed if and only if it asks for the lease.
\<close>

theorem Serve_refines:
  assumes "cidr_net k sn" and "config_ok (New ip sn name file)"
    and "Serve (New ip sn name file) inputs = Returns (s', ds, e)"
  shows "\<exists>es rest fs. inputs = map fst es @ rest \<and> (e = None \<longrightarrow> rest = []) \<and> ds = datagrams es \<and>
    list_all2 sees es fs \<and>
    run lease_step \<lparr>pool = {b. length b = 4 \<and> Contains sn (Some b)}, leases = Map.empty\<rparr> fs (leases_of s')"
proof -
  let ?s = "New ip sn name file"
  obtain es rest where es: "run server_step (?s, None) es (s', e)" "inputs = map fst es @ rest" "ds = datagrams es"
    "e = None \<longrightarrow> rest = []" using assms(3) by (auto simp: Serve_run)
  have "loop_init (?s, None)" unfolding loop_init_def using assms(1,2) by blast
  from serving.run_sim [OF es(1) loop_init_good [OF this]] obtain fs where
    "run lease_step (leases_of ?s) fs (leases_of s')" "list_all2 sees es fs" by auto
  moreover have "leases_of ?s = \<lparr>pool = {b. length b = 4 \<and> Contains sn (Some b)}, leases = Map.empty\<rparr>"
    by (simp add: leases_of_def New_def newIPAllocator_def)
  ultimately show ?thesis using es by auto
qed

theorem Serve_refines_witness:
  "\<exists>s' ds. Serve example_server [Received (packet_bytes (example_msg DHCPDiscover [192, 168, 1, 9]))
      (UDPAddr IPv4zero 68) None] = Returns (s', ds, None) \<and>
    run lease_step \<lparr>pool = {b. length b = 4 \<and> Contains example_net (Some b)}, leases = Map.empty\<rparr>
      [Offered (getMac [2, 0, 0, 0, 0, 7]) (Some [192, 168, 1, 9]) [192, 168, 1, 9]] (leases_of s')"
proof -
  let ?msg = "example_msg DHCPDiscover [192, 168, 1, 9]"
  obtain s d where s: "Serve example_server [Received (packet_bytes ?msg) (UDPAddr IPv4zero 68) None] =
      Returns (s, [(d, UDPAddr IPv4bcast 68)], None)" "getIP s [2, 0, 0, 0, 0, 7] = Some [192, 168, 1, 9]"
    by (rule example_discovered)
  from Serve_refines [OF example_cidr [unfolded example_subnet] example_New(1) s(1) [unfolded example_server_def]]
  obtain e f where "sees (Received (packet_bytes ?msg) (UDPAddr IPv4zero 68) None, Some (d, UDPAddr IPv4bcast 68), e) f"
    and r: "run lease_step \<lparr>pool = {b. length b = 4 \<and> Contains example_net (Some b)}, leases = Map.empty\<rparr> [f] (leases_of s)"
    by (auto simp: list_all2_Cons1 map_eq_Cons_conv simp del: sees.simps split: option.splits)
  then obtain b where f: "f = Offered (getMac [2, 0, 0, 0, 0, 7]) (Some [192, 168, 1, 9]) b"
    by (cases f) (auto simp: example_received example_ok gives_up_def example_requests example_chaddr)
  with lease_after_run [OF r, of "getMac [2, 0, 0, 0, 0, 7]"] s(2) have "b = [192, 168, 1, 9]"
    by (simp add: leases_of_lease)
  with r f s(1) show ?thesis by auto
qed

text \<open>
  C4. Whoever is sent an ACK for an address was sent an Offer of it before: in every run of the
  loop from a new server on a CIDR subnet, whatever else arrives, an ACK with an address other than 0.0.0.0 is preceded by an Offer of
  the same address to the same client, and no Release or Decline of that client came in between.
\<close>

theorem ack_follows_offer:
  assumes "cidr_net k sn" and "config_ok (New ip sn name file)"
    and "run server_step (New ip sn name file, None) (es @ [(i, Some (bs, a), e)]) st"
    and "ParsePacket bs = Inr re" and "GetDHCPMessageType (Opts re) = DHCPACK" and "YIAddr re \<noteq> Some [0, 0, 0, 0]"
  shows "\<exists>es1 i' bs' a' es2 offer. es = es1 @ (i', Some (bs', a'), None) # es2 \<and> ParsePacket bs' = Inr offer \<and>
    GetDHCPMessageType (Opts offer) = DHCPOffer \<and> YIAddr offer = YIAddr re \<and>
    getMac (CHAddr offer) = getMac (CHAddr re) \<and>
    (\<forall>j \<in> set (map fst es2). \<not> input_gives_up j (getMac (CHAddr re)))"
proof -
  let ?s = "New ip sn name file" and ?m = "getMac (CHAddr re)"
  have init: "loop_init (?s, None)" unfolding loop_init_def using assms(1,2) by blast
  from serving.run_sim [OF assms(3) loop_init_good [OF init]] obtain gs where
    gs: "run lease_step (leases_of ?s) gs (leases_of (fst st))" "list_all2 sees (es @ [(i, Some (bs, a), e)]) gs"
    by auto
  then obtain fs f where fs: "gs = fs @ [f]" "list_all2 sees es fs" "sees (i, Some (bs, a), e) f"
    by (auto simp: list_all2_append1 list_all2_Cons1 simp del: sees.simps)
  obtain r where r: "f = Acked ?m r" "YIAddr re = Some (ip4_field r)" "ip_or_nil r"
    by (rule sees_Ack [OF fs(3) assms(4,5)])
  with assms(6) obtain b where "r = Some b" by (cases r) (auto simp: ip4_field_def zeros_def numeral_eq_Suc)
  with gs(1) fs(1) r have run: "run lease_step (leases_of ?s) (fs @ [Acked ?m (Some b)]) (leases_of (fst st))" by simp
  obtain fs1 q fs2 where off: "fs = fs1 @ Offered ?m q b # fs2" "Ended ?m \<notin> set fs2"
    using acked_was_offered [OF run] serving.init_sim [OF init] by auto
  with fs(2) obtain es1 i' d' e' es2 where es: "es = es1 @ (i', d', e') # es2" "sees (i', d', e') (Offered ?m q b)"
    "list_all2 sees es2 fs2" by (auto simp: list_all2_append2 list_all2_Cons2 simp del: sees.simps)
  have "e' = None" using run_no_error [OF assms(3)] es(1) by auto
  then obtain bs' a' offer where "d' = Some (bs', a')" "ParsePacket bs' = Inr offer" "getMac (CHAddr offer) = ?m"
    "GetDHCPMessageType (Opts offer) = DHCPOffer" "YIAddr offer = Some b"
    using es(2) by (auto simp del: sees.simps elim: sees_Offer)
  moreover have "\<not> input_gives_up j ?m" if j: "j \<in> set (map fst es2)" for j
  proof
    assume "input_gives_up j ?m"
    with j es(3) off(2) show False
      by (auto simp: list_all2_conv_all_nth in_set_conv_nth simp del: sees.simps) (metis sees_Ended nth_mem)
  qed
  ultimately show ?thesis
    using es(1) \<open>e' = None\<close> r(2,3) \<open>r = Some b\<close>
    by (intro exI [of _ es1] exI [of _ i'] exI [of _ bs'] exI [of _ a'] exI [of _ es2] exI [of _ offer])
      (auto simp: field_of_lease)
qed

theorem ack_follows_offer_witness:
  "\<exists>es i bs a e st re. run server_step (example_server, None) (es @ [(i, Some (bs, a), e)]) st \<and>
    ParsePacket bs = Inr re \<and> GetDHCPMessageType (Opts re) = DHCPACK \<and> YIAddr re = Some [192, 168, 1, 9] \<and>
    (\<exists>es1 i' bs' a' es2 offer. es = es1 @ (i', Some (bs', a'), None) # es2 \<and> ParsePacket bs' = Inr offer \<and>
      YIAddr offer = Some [192, 168, 1, 9])"
proof -
  obtain st ev bs re i a where r: "run server_step (example_server, None) ([ev] @ [(i, Some (bs, a), None)]) st"
    "ParsePacket bs = Inr re" "GetDHCPMessageType (Opts re) = DHCPACK" "YIAddr re = Some [192, 168, 1, 9]"
    using example_confirmed by (metis append_Cons append_Nil)
  then have nz: "YIAddr re \<noteq> Some [0, 0, 0, 0]" by simp
  from ack_follows_offer [OF example_cidr [unfolded example_subnet] example_New(1) r(1) [unfolded example_server_def] r(2,3) nz]
  obtain es1 i' bs' a' es2 offer where "[ev] = es1 @ (i', Some (bs', a'), None) # es2" "ParsePacket bs' = Inr offer"
    "YIAddr offer = YIAddr re" by blast
  with r show ?thesis by metis
qed

text \<open>
  C15. The tables of the server do not grow beyond the subnet: after any inputs there are at most as
  many leases as its CIDR subnet, a network with \<open>k\<close> host bits, has addresses.
\<close>

theorem leases_bounded:
  assumes "cidr_net k sn" and "config_ok (New ip sn name file)"
    and "Serve (New ip sn name file) inputs = Returns (s', ds, e)"
  shows "finite (dom (conns s')) \<and> card (dom (conns s')) \<le> 2 ^ k"
proof -
  let ?s = "New ip sn name file"
  have init: "loop_init (?s, None)" unfolding loop_init_def using assms(1,2) by blast
  obtain es where es: "run server_step (?s, None) es (s', e)" using assms(3) by (auto simp: Serve_run)
  have s': "server_inv s'" "same_config ?s s'"
    using Serve_inv [OF server_inv_New assms(2,3)] assms(1) by (auto simp: cidr_net_def)
  then have sn: "subnet (ips s') = sn" by (simp add: same_config_def New_def newIPAllocator_def)
  have r: "reach lease_init lease_step (leases_of s')"
    using serving.reach_sim [OF run_reach [OF es reach_init [of loop_init, OF init]]] by simp
  have "dom (conns s') = dom (leases (leases_of s'))"
    using leased_4 [OF s'(1)] by (fastforce simp: leases_of_def split: option.splits)
  moreover have "lease_inv (leases_of s')" using leasing.reach_inv [OF r] .
  moreover have "pool (leases_of s') = {b. length b = 4 \<and> Contains sn (Some b)}" using sn by (simp add: leases_of_def)
  ultimately show ?thesis
    using finite_run_lease_db [OF r] card_subnet [OF assms(1)] by (auto simp: lease_inv_def)
qed

theorem leases_bounded_witness:
  "\<exists>s' ds. Serve example_server [Received (packet_bytes (example_msg DHCPDiscover [192, 168, 1, 9]))
      (UDPAddr IPv4zero 68) None] = Returns (s', ds, None) \<and> dom (conns s') \<noteq> {} \<and> card (dom (conns s')) \<le> 256"
proof -
  obtain s d where s: "Serve example_server [Received (packet_bytes (example_msg DHCPDiscover [192, 168, 1, 9]))
      (UDPAddr IPv4zero 68) None] = Returns (s, [(d, UDPAddr IPv4bcast 68)], None)"
    "getIP s [2, 0, 0, 0, 0, 7] = Some [192, 168, 1, 9]" by (rule example_discovered)
  then have "dom (conns s) \<noteq> {}" by (auto simp: getIP_def split: option.splits)
  with leases_bounded [OF example_cidr [unfolded example_subnet] example_New(1) s(1) [unfolded example_server_def]] s(1)
  show ?thesis by auto
qed

end
