(* ===== verification/NetParse.thy ===== *)
theory NetParse
  imports NetIP
begin

text \<open>
  The textual notations of Go's package \<^verbatim>\<open>net\<close> that the command uses for its flags: \<^verbatim>\<open>ParseIP\<close> and
  \<^verbatim>\<open>ParseCIDR\<close>, with the number scanners under them. An octet with a leading zero is refused, as in
  all current releases of the library.
\<close>

section \<open>Numbers\<close>

definition digit_val :: "nat \<Rightarrow> char \<Rightarrow> nat option" where
  "digit_val base c = (let v = of_char c in
     let d = (if 48 \<le> v \<and> v \<le> 57 then Some (v - 48)
       else if 97 \<le> v \<and> v \<le> 102 then Some (v - 87)
       else if 65 \<le> v \<and> v \<le> 70 then Some (v - 55) else None) in
     case d of None \<Rightarrow> None | Some d \<Rightarrow> if d < base then Some d else None)"

text \<open>The value, the number of characters read, and whether there was a number in range.\<close>

definition big :: nat where "big = 16777215"

fun scan_number :: "nat \<Rightarrow> nat \<Rightarrow> nat \<Rightarrow> string \<Rightarrow> nat \<times> nat \<times> bool" where
  "scan_number base n i [] = (n, i, 0 < i)"
| "scan_number base n i (c # cs) = (case digit_val base c of
     None \<Rightarrow> (n, i, 0 < i)
   | Some d \<Rightarrow> if big \<le> n * base + d then (big, i, False) else scan_number base (n * base + d) (i + 1) cs)"

definition dtoi :: "string \<Rightarrow> nat \<times> nat \<times> bool" where "dtoi s = scan_number 10 0 0 s"

definition xtoi :: "string \<Rightarrow> nat \<times> nat \<times> bool" where "xtoi s = scan_number 16 0 0 s"

section \<open>Addresses\<close>

text \<open>The octets that are left to read, the ones read so far, and the rest of the text.\<close>

fun parseIPv4_loop :: "nat \<Rightarrow> byte list \<Rightarrow> string \<Rightarrow> byte list option" where
  "parseIPv4_loop 0 p s = (if s = [] then Some p else None)"
| "parseIPv4_loop (Suc k) p s =
    (if s = [] then None
     else if p \<noteq> [] \<and> hd s \<noteq> CHR ''.'' then None
     else let s = (if p = [] then s else tl s) in
       case dtoi s of (n, c, ok) \<Rightarrow>
         if \<not> ok \<or> 255 < n then None
         else if 1 < c \<and> hd s = CHR ''0'' then None
         else parseIPv4_loop k (p @ [of_nat n]) (drop c s))"

definition parseIPv4 :: "string \<Rightarrow> net_IP" where
  "parseIPv4 s = (case parseIPv4_loop 4 [] s of
     Some [a, b, c, d] \<Rightarrow> net_IPv4 a b c d
   | _ \<Rightarrow> None)"

text \<open>
  One group of hexadecimal digits: the bytes read so far, the position of the ellipsis, the rest of
  the text, and whether the loop stops here. The result is \<open>None\<close> where the text is not an address.
\<close>

type_synonym v6_state = "byte list \<times> nat option \<times> string"

definition parseIPv6_group :: "v6_state \<Rightarrow> (bool \<times> v6_state) option" where
  "parseIPv6_group st = (case st of (ip, ellipsis, s) \<Rightarrow>
     case xtoi s of (n, c, ok) \<Rightarrow>
       if \<not> ok \<or> 65535 < n then None
       else if c < length s \<and> s ! c = CHR ''.'' then
         (if ellipsis = None \<and> length ip \<noteq> 12 then None
          else if 16 < length ip + 4 then None
          else case parseIPv4 s of
            None \<Rightarrow> None
          | Some ip4 \<Rightarrow> Some (True, ip @ drop 12 ip4, ellipsis, []))
       else
         let ip = ip @ [of_nat (n div 256), of_nat n]; s = drop c s in
         if s = [] then Some (True, ip, ellipsis, s)
         else if hd s \<noteq> CHR '':'' \<or> length s = 1 then None
         else let s = tl s in
           if hd s = CHR '':'' then
             (if ellipsis \<noteq> None then None
              else Some (tl s = [], ip, Some (length ip), tl s))
           else Some (False, ip, ellipsis, s))"

lemma parseIPv6_group_grows:
  "parseIPv6_group (ip, ell, s) = Some (False, ip', ell', s') \<Longrightarrow> length ip' = length ip + 2"
  by (auto simp: parseIPv6_group_def Let_def split: if_splits prod.splits option.splits)

function parseIPv6_loop :: "v6_state \<Rightarrow> v6_state option" where
  "parseIPv6_loop (ip, ellipsis, s) =
    (if 16 \<le> length ip then Some (ip, ellipsis, s)
     else case parseIPv6_group (ip, ellipsis, s) of
       None \<Rightarrow> None
     | Some (stop, st) \<Rightarrow> if stop then Some st else parseIPv6_loop st)"
  by pat_completeness auto
termination by (relation "measure (\<lambda>(ip, _). 16 - length ip)") (auto dest: parseIPv6_group_grows)

declare parseIPv6_loop.simps [simp del]

definition parseIPv6 :: "string \<Rightarrow> net_IP" where
  "parseIPv6 s = (let lead = (take 2 s = ''::''); s = (if lead then drop 2 s else s) in
     if lead \<and> s = [] then Some (zeros 16)
     else case parseIPv6_loop ([], if lead then Some 0 else None, s) of
       None \<Rightarrow> None
     | Some (ip, ellipsis, s) \<Rightarrow>
         if s \<noteq> [] then None
         else if length ip < 16 then (case ellipsis of
             None \<Rightarrow> None
           | Some e \<Rightarrow> Some (take e ip @ zeros (16 - length ip) @ drop e ip))
         else if ellipsis \<noteq> None then None
         else Some ip)"

fun ParseIP_scan :: "string \<Rightarrow> string \<Rightarrow> net_IP" where
  "ParseIP_scan s [] = None"
| "ParseIP_scan s (c # cs) = (if c = CHR ''.'' then parseIPv4 s
     else if c = CHR '':'' then parseIPv6 s else ParseIP_scan s cs)"

definition ParseIP :: "string \<Rightarrow> net_IP" where "ParseIP s = ParseIP_scan s s"

section \<open>Networks\<close>

fun mask_bytes :: "nat \<Rightarrow> nat \<Rightarrow> byte list" where
  "mask_bytes 0 n = []"
| "mask_bytes (Suc l) n = (if 8 \<le> n then 255 # mask_bytes l (n - 8)
     else NOT (drop_bit n 255) # mask_bytes l 0)"

definition CIDRMask :: "nat \<Rightarrow> nat \<Rightarrow> byte list" where
  "CIDRMask ones bits = mask_bytes (bits div 8) ones"

text \<open>\<open>ip.Mask(m)\<close> for an address of 16 bytes, as \<^verbatim>\<open>ParseCIDR\<close> calls it.\<close>

definition IP_Mask :: "byte list \<Rightarrow> byte list \<Rightarrow> byte list" where
  "IP_Mask ip m = (let ip = (if length m = 4 \<and> length ip = 16 \<and> take 12 ip = v4InV6Prefix then drop 12 ip else ip) in
     if length ip = length m then masked m ip else [])"

text \<open>The network only: the command drops the address. \<open>None\<close> is a \<^verbatim>\<open>ParseError\<close>.\<close>

definition ParseCIDR :: "string \<Rightarrow> IPNet option" where
  "ParseCIDR s = (case index_of (CHR ''/'') s of
     None \<Rightarrow> None
   | Some i \<Rightarrow>
       let addr = take i s; m = drop (i + 1) s; ip4 = parseIPv4 addr;
           iplen = (if ip4 = None then 16 else 4);
           ip = (if ip4 = None then parseIPv6 addr else ip4) in
       case (ip, dtoi m) of
         (Some b, (n, c, ok)) \<Rightarrow>
           if \<not> ok \<or> c \<noteq> length m \<or> 8 * iplen < n then None
           else Some \<lparr>IPNet_IP = IP_Mask b (CIDRMask n (8 * iplen)), IPNet_Mask = CIDRMask n (8 * iplen)\<rparr>
       | _ \<Rightarrow> None)"

section \<open>What the parsers yield\<close>

lemma parseIPv4_loop_length: "parseIPv4_loop k p s = Some q \<Longrightarrow> length q = length p + k"
  by (induction k p s rule: parseIPv4_loop.induct) (auto simp: Let_def split: if_splits prod.splits)

lemma parseIPv4_mapped: "parseIPv4 s = Some b \<Longrightarrow> \<exists>q. length q = 4 \<and> b = v4InV6Prefix @ q"
  by (auto simp: parseIPv4_def net_IPv4_def split: option.splits list.splits)

lemma To4_mapped: "length q = 4 \<Longrightarrow> To4 (Some (v4InV6Prefix @ q)) = Some q"
  by (simp add: To4_def v4InV6Prefix_def)

text \<open>The loop keeps within sixteen bytes, with the ellipsis among the bytes read.\<close>

definition v6_ok :: "v6_state \<Rightarrow> bool" where
  "v6_ok st \<longleftrightarrow> (case st of (ip, ell, s) \<Rightarrow> length ip \<le> 16 \<and> even (length ip) \<and> (\<forall>e. ell = Some e \<longrightarrow> e \<le> length ip))"

lemma parseIPv6_group_ok:
  assumes "v6_ok (ip, ell, s)" and "length ip < 16" and "parseIPv6_group (ip, ell, s) = Some (stop, st)"
  shows "v6_ok st"
proof -
  have "length ip + 2 \<le> 16" using assms(1,2) by (auto simp: v6_ok_def elim!: evenE)
  moreover have "length (drop 12 b) = 4" if "parseIPv4 t = Some b" for t b
    using parseIPv4_mapped [OF that] by (auto simp: v4InV6Prefix_def)
  ultimately show ?thesis
    using assms by (auto simp: parseIPv6_group_def v6_ok_def Let_def split: if_splits prod.splits option.splits)
qed

lemma parseIPv6_loop_ok: "parseIPv6_loop st = Some st' \<Longrightarrow> v6_ok st \<Longrightarrow> v6_ok st'"
proof (induction st rule: parseIPv6_loop.induct)
  case (1 ip ell s)
  then show ?case
    using parseIPv6_group_ok [of ip ell s]
    by (auto simp: parseIPv6_loop.simps [of ip ell s] split: if_splits option.splits)
qed

lemma parseIPv6_length: "parseIPv6 s = Some b \<Longrightarrow> length b = 16"
  by (auto simp: parseIPv6_def Let_def v6_ok_def split: if_splits option.splits dest!: parseIPv6_loop_ok)

lemma mask_bytes_length [simp]: "length (mask_bytes l n) = l"
  by (induction l n rule: mask_bytes.induct) auto

lemma CIDRMask_prefix: "n \<le> 32 \<Longrightarrow> ip_word (CIDRMask n 32) = NOT (mask (32 - n))"
proof -
  have "list_all (\<lambda>n. ip_word (CIDRMask n 32) = NOT (mask (32 - n))) [0..<33]" by code_simp
  then show "n \<le> 32 \<Longrightarrow> ip_word (CIDRMask n 32) = NOT (mask (32 - n))" by (simp add: list_all_iff)
qed

lemma dvd_masked:
  fixes w :: u32
  assumes "k \<le> 32"
  shows "2 ^ k dvd unat (w AND NOT (mask k))"
proof -
  have "w AND NOT (mask k) = push_bit k (drop_bit k w)" by (rule bit_word_eqI) (auto simp: bit_simps)
  also have "\<dots> = of_nat (2 ^ k * unat (drop_bit k w))" by (simp add: push_bit_eq_mult mult.commute)
  finally have "unat (w AND NOT (mask k)) = (2 ^ k * unat (drop_bit k w)) mod 2 ^ 32"
    by (simp only: unat_of_nat) simp
  moreover have "(2 :: nat) ^ k dvd 2 ^ 32" using assms by (rule le_imp_power_dvd)
  ultimately show ?thesis by (simp only: dvd_mod dvd_triv_left)
qed

text \<open>A network in IPv4 notation is in CIDR form; any other has sixteen bytes.\<close>

lemma cidr_of_prefix:
  assumes "length q = 4" and "n \<le> 32"
  shows "cidr_net (32 - n) \<lparr>IPNet_IP = masked (CIDRMask n 32) q, IPNet_Mask = CIDRMask n 32\<rparr>"
proof -
  have l: "length (CIDRMask n 32) = 4" by (simp add: CIDRMask_def)
  then have "be_val (masked (CIDRMask n 32) q) = unat (ip_word q AND NOT (mask (32 - n)))"
    using assms by (simp add: be_val_ip_word masked_def ip_word_masked [unfolded masked_def] CIDRMask_prefix)
  with dvd_masked [of "32 - n" "ip_word q"] l assms show ?thesis
    by (simp add: cidr_net_def ipv4_net_def CIDRMask_prefix masked_def)
qed

lemma ParseCIDR_cases:
  assumes "ParseCIDR s = Some n"
  obtains (v4) k where "cidr_net k n" | (v6) "length (IPNet_IP n) = 16" and "length (IPNet_Mask n) = 16"
proof -
  obtain i where i: "index_of (CHR ''/'') s = Some i" using assms by (auto simp: ParseCIDR_def split: option.splits)
  show ?thesis
  proof (cases "parseIPv4 (take i s)")
    case None
    with assms i show ?thesis
      by (intro v6) (auto simp: ParseCIDR_def Let_def CIDRMask_def IP_Mask_def masked_def
          split: option.splits prod.splits if_splits dest!: parseIPv6_length)
  next
    case (Some b)
    obtain q where q: "length q = 4" "b = v4InV6Prefix @ q" using parseIPv4_mapped [OF Some] by blast
    then have "IP_Mask b (CIDRMask m 32) = masked (CIDRMask m 32) q" for m
      by (simp add: IP_Mask_def CIDRMask_def v4InV6Prefix_def)
    then obtain m where "n = \<lparr>IPNet_IP = masked (CIDRMask m 32) q, IPNet_Mask = CIDRMask m 32\<rparr>" "m \<le> 32"
      using assms i Some by (auto simp: ParseCIDR_def Let_def split: prod.splits if_splits)
    with cidr_of_prefix [OF q(1), of m] have "cidr_net (32 - m) n" by simp
    then show ?thesis by (rule v4)
  qed
qed

end
