(* ===== verification/Command.thy ===== *)
theory Command
  imports NetParse ServerSpec
begin

text \<open>
  \<^verbatim>\<open>cmd/dhcp4server/main.go\<close>: the command that runs the server. Its environment is the answer of
  \<^verbatim>\<open>net.ListenPacket\<close> and the inputs that then arrive. \<^verbatim>\<open>log.Fatalf\<close> ends the process.
\<close>

section \<open>The command\<close>

text \<open>The values of the two flags. The command never calls \<^verbatim>\<open>flag.Parse\<close>, so they keep their defaults.\<close>

record flags =
  subnet_flag :: string
  self_flag :: string

definition flag_defaults :: flags where
  "flag_defaults = \<lparr>subnet_flag = ''192.168.1.0/24'', self_flag = ''192.168.0.1''\<rparr>"

datatype fatal = BadSubnet string | ListenFailed go_error | ServeFailed go_error

text \<open>The UDP port of all local addresses that the command listens on, \<^verbatim>\<open>":67"\<close>.\<close>

definition listen_port :: nat where "listen_port = 67"

text \<open>
  The process ended, or the server is waiting for input. The argument \<open>listen\<close> of \<open>main\<close> is the error, if any,
  of listening on that port.
\<close>

datatype command_end = Fatal fatal | Serving Server

definition main :: "flags \<Rightarrow> go_error option \<Rightarrow> serve_input list \<Rightarrow> (datagram list \<times> command_end) outcome" where
  "main fl listen inputs = (case ParseCIDR (subnet_flag fl) of
     None \<Rightarrow> Returns ([], Fatal (BadSubnet (subnet_flag fl)))
   | Some sn \<Rightarrow> (case listen of
         Some e \<Rightarrow> Returns ([], Fatal (ListenFailed e))
       | None \<Rightarrow>
           let s = New (ParseIP (self_flag fl)) sn [] [] in
           obind (Serve s inputs) (\<lambda>(s, ds, e). case e of
             Some e \<Rightarrow> Returns (ds, Fatal (ServeFailed e))
           | None \<Rightarrow> Returns (ds, Serving s))))"

section \<open>The default configuration\<close>

lemma default_flags:
  "ParseCIDR ''192.168.1.0/24'' = Some \<lparr>IPNet_IP = [192, 168, 1, 0], IPNet_Mask = [255, 255, 255, 0]\<rparr>"
  "ParseIP ''192.168.0.1'' = net_IPv4 192 168 0 1"
proof -
  have 4: "parseIPv4_loop 4 [] s = parseIPv4_loop (Suc (Suc (Suc (Suc 0)))) [] s" for s
    by (simp add: numeral_eq_Suc)
  have a: "parseIPv4 ''192.168.1.0'' = net_IPv4 192 168 1 0" "parseIPv4 ''192.168.0.1'' = net_IPv4 192 168 0 1"
    unfolding parseIPv4_def 4 by (simp_all add: dtoi_def digit_val_def big_def)
  have m: "dtoi ''24'' = (24, 2, True)" by (simp add: dtoi_def digit_val_def big_def)
  have "(32 :: nat) div 8 = Suc (Suc (Suc (Suc 0)))" by simp
  then have c: "CIDRMask 24 32 = [255, 255, 255, 0]" unfolding CIDRMask_def by (simp only:) simp
  show "ParseIP ''192.168.0.1'' = net_IPv4 192 168 0 1" by (simp add: ParseIP_def a)
  show "ParseCIDR ''192.168.1.0/24'' = Some \<lparr>IPNet_IP = [192, 168, 1, 0], IPNet_Mask = [255, 255, 255, 0]\<rparr>"
    by (simp add: ParseCIDR_def a m c net_IPv4_def IP_Mask_def v4InV6Prefix_def masked_def)
qed

lemma config_ok_New: "config_ok (New ip sn [] []) \<longleftrightarrow> To4 ip \<noteq> None"
  by (auto simp: config_ok_def New_def names_fit_def dest: To4_length)

lemma main_serves:
  assumes "ParseCIDR (subnet_flag fl) = Some sn"
  shows "main fl None inputs = obind (Serve (New (ParseIP (self_flag fl)) sn [] []) inputs)
    (\<lambda>(s, ds, e). Returns (ds, case e of None \<Rightarrow> Serving s | Some e \<Rightarrow> Fatal (ServeFailed e)))"
  using assms by (auto simp: main_def Let_def intro!: arg_cong [where f = "obind _"] split: option.split)

lemma obind_Panics_iff: "obind m f = Panics \<longleftrightarrow> m = Panics \<or> (\<exists>x. m = Returns x \<and> f x = Panics)"
  by (cases m) auto

lemma Serve_no_panic: "server_inv s \<Longrightarrow> config_ok s \<Longrightarrow> Serve s inputs \<noteq> Panics"
proof (induction inputs arbitrary: s)
  case (Cons i inputs)
  show ?case
  proof (cases "serve_one s i")
    case (Returns r)
    obtain t d e1 where r: "r = (t, d, e1)" by (cases r)
    from serve_one_inv [OF Cons.prems Returns [unfolded r]] Cons.prems(2) have "server_inv t" "config_ok t"
      by (auto simp: config_ok_same)
    with Cons.IH [of t] Returns r show ?thesis by (cases "Serve t inputs"; cases e1) (auto simp: Let_def)
  qed (use serve_one_outcome [OF Cons.prems] in auto)
qed simp

section \<open>Configurations that bring the server down\<close>

text \<open>Without an own address the server cannot build any reply.\<close>

lemma responsePacket_no_ip: "srv_ip s = None \<Longrightarrow> responsePacket s pkt typ = Panics"
  by (simp add: responsePacket_def Let_def Options_Add_def DHCPMessageType_MarshalBinary_def IP_MarshalBinary_def
      slice4_def slice_to_def IPv4len_def)

lemma discover_no_ip:
  "srv_ip s = None \<Longrightarrow> GetDHCPMessageType (Opts pkt) = DHCPDiscover \<Longrightarrow> serve_packet s pkt addr werr = Panics"
  by (simp add: serve_packet_def serve_discover_def responsePacket_no_ip)

text \<open>In a network of IPv6 addresses the search for an address reads four bytes of a nil slice.\<close>

lemma Contains_own_v6:
  assumes "length (IPNet_IP n) = 16" and "length (IPNet_Mask n) = 16" and "To4 (Some (IPNet_IP n)) = None"
  shows "Contains n (Some (IPNet_IP n))" and "length b = 4 \<Longrightarrow> \<not> Contains n (Some b)"
  using assms by (simp_all add: Contains_def networkNumberAndMask_def)

lemma alloc_v6:
  assumes "length (IPNet_IP n) = 16" and "length (IPNet_Mask n) = 16" and "To4 (Some (IPNet_IP n)) = None"
  shows "alloc (newIPAllocator n) = Panics"
proof -
  have "alloc_loop (newIPAllocator n) (IPNet_IP n) = Some Panics"
    by (subst alloc_loop.simps)
      (simp add: newIPAllocator_def Contains_own_v6 [OF assms] usable_def ipToUint32_def assms(3))
  then show ?thesis by (simp add: alloc_def newIPAllocator_def go_copy_exact)
qed

lemma discover_v6:
  assumes "length (IPNet_IP n) = 16" and "length (IPNet_Mask n) = 16" and "To4 (Some (IPNet_IP n)) = None"
    and "To4 ip \<noteq> None" and "GetDHCPMessageType (Opts pkt) = DHCPDiscover"
  shows "serve_packet (New ip n [] []) pkt addr werr = Panics"
proof -
  let ?s = "New ip n [] []" and ?r = "GetRequestedIPAddress (Opts pkt)"
  have "\<not> Contains n ?r" using Contains_own_v6 [OF assms(1-3)] requested_4 [of "Opts pkt"] assms(1)
    by (cases ?r) (auto simp: Contains_def networkNumberAndMask_def assms(2,3))
  then have "grabIP ?s (CHAddr pkt) ?r = Returns (False, ?s)"
    by (simp add: grabIP_def grab_def New_def newIPAllocator_def)
  moreover have "newIP ?s (CHAddr pkt) = Panics"
    using alloc_v6 [OF assms(1-3)] by (simp add: newIP_def New_def)
  moreover have "conns ?s = Map.empty" by (simp add: New_def)
  moreover have "config_ok ?s" using assms(4) by (simp add: config_ok_New)
  ultimately show ?thesis
    using assms(5) by (simp add: serve_packet_def serve_discover_def responsePacket_config Let_def)
qed

section \<open>Properties\<close>

text \<open>
  C13. Started as it is installed, the command serves the network 192.168.1.0/24: whatever datagrams
  arrive, it never panics or hangs, and ends only if a read or a write of the connection fails or the connection
  gives the sender of a datagram as something else than a UDP address; its leases are distinct
  addresses of that network, and never its own address, which lies outside.
\<close>

theorem main_default:
  "\<exists>ds r. main flag_defaults None inputs = Returns (ds, r) \<and>
    (case r of
       Serving s \<Rightarrow> inj_on (conns s) (dom (conns s)) \<and> (\<forall>m. conns s m \<noteq> Some (Some [192, 168, 0, 1])) \<and>
         ran (conns s) \<subseteq> {Some [192, 168, 1, h] | h. True}
     | Fatal (ServeFailed e) \<Rightarrow> Some e \<in> (\<Union>i \<in> set inputs. input_errors i)
     | Fatal _ \<Rightarrow> False)"
proof -
  let ?s = "New (net_IPv4 192 168 0 1) example_net [] []"
  have cfg: "config_ok ?s" by (simp add: config_ok_New net_IPv4_def To4_mapped)
  have inv: "server_inv ?s" using example_ok(1) by (rule server_inv_New)
  have "proper_subnet ?s" using example_ok(4) by (simp add: proper_subnet_def example_server_def New_def)
  from Serve_returns [OF inv cfg this] obtain s ds e where r: "Serve ?s inputs = Returns (s, ds, e)" by blast
  have s: "server_inv s" "subnet (ips s) = example_net"
    using Serve_inv [OF inv cfg r] by (auto simp: same_config_def New_def newIPAllocator_def)
  have "\<exists>h. b = [192, 168, 1, h]" if "conns s m = Some (Some b)" for m b
  proof -
    have b: "length b = 4" "b \<in> held (ips s)" using leased_4 [OF s(1) that] by auto
    with s have "Contains example_net (Some b)" by (auto simp: server_inv_def pool_inv_def)
    moreover have "x AND 255 = x" for x :: byte
    proof -
      have "(255 :: byte) = - 1" by simp
      then show ?thesis by (simp only: and.right_neutral)
    qed
    ultimately show ?thesis
      using b(1) by (auto simp: Contains_ipv4 example_ok(1) length_4_conv) (auto simp: example_net_def masked_def)
  qed
  note in_net = this
  have "ran (conns s) \<subseteq> {Some [192, 168, 1, h] | h. True}"
    using leased_4 [OF s(1)] in_net by (fastforce simp: ran_def)
  moreover have "inj_on (conns s) (dom (conns s))" using s(1) by (simp add: server_inv_def lease_table_def)
  moreover have "\<forall>m. conns s m \<noteq> Some (Some [192, 168, 0, 1])" using in_net by fastforce
  moreover have "main flag_defaults None inputs =
      Returns (ds, case e of None \<Rightarrow> Serving s | Some e \<Rightarrow> Fatal (ServeFailed e))"
    using main_serves [of flag_defaults example_net inputs] r
    by (simp add: flag_defaults_def default_flags example_net_def)
  ultimately show ?thesis using Serve_errors [OF inv cfg r] by (cases e) auto
qed

text \<open>
  C14. The command checks the subnet it is given, but not that it is a network of IPv4 addresses, and
  not its own address: with an IPv4 network, or an IPv6 one that is not an embedded IPv4 network,
  there is traffic that makes the server panic exactly if its own address is not an IPv4 address or
  the network is one of IPv6 addresses.
\<close>

theorem main_panics:
  assumes "ParseCIDR (subnet_flag fl) = Some sn"
    and "length (IPNet_IP sn) = 4 \<or> To4 (Some (IPNet_IP sn)) = None"
  shows "(\<exists>inputs. main fl None inputs = Panics) \<longleftrightarrow>
    To4 (ParseIP (self_flag fl)) = None \<or> length (IPNet_IP sn) = 16"
proof -
  let ?s = "New (ParseIP (self_flag fl)) sn [] []" and ?msg = "example_msg DHCPDiscover [10, 0, 0, 1]"
  have crash: "\<exists>inputs. main fl None inputs = Panics" if "serve_packet ?s ?msg OtherAddr None = Panics"
  proof -
    have "Serve ?s [Received (packet_bytes ?msg) OtherAddr None] = Panics"
      using that by (simp add: serve_one_def example_received)
    then show ?thesis by (intro exI [of _ "[Received (packet_bytes ?msg) OtherAddr None]"])
        (simp only: main_serves [OF assms(1)] obind.simps)
  qed
  from assms(1) show ?thesis
  proof (cases rule: ParseCIDR_cases)
    case (v4 k)
    then have len: "length (IPNet_IP sn) = 4" and inv: "server_inv ?s"
      by (auto simp: cidr_net_def ipv4_net_def intro: server_inv_New)
    show ?thesis
    proof (cases "To4 (ParseIP (self_flag fl))")
      case None
      then have "srv_ip ?s = None" by (simp add: New_def)
      from discover_no_ip [OF this example_ok(6)] crash None show ?thesis by blast
    next
      case (Some ip)
      then have "config_ok ?s" by (simp add: config_ok_New)
      from Serve_no_panic [OF inv this] len Some show ?thesis
        by (auto simp: main_serves [OF assms(1)] obind_Panics_iff)
    qed
  next
    case v6
    with assms(2) have no4: "To4 (Some (IPNet_IP sn)) = None" by simp
    have "serve_packet ?s ?msg OtherAddr None = Panics"
    proof (cases "To4 (ParseIP (self_flag fl))")
      case None
      then show ?thesis by (intro discover_no_ip) (simp_all add: New_def example_ok(6))
    next
      case (Some ip)
      then show ?thesis by (intro discover_v6 [OF v6 no4]) (simp_all add: example_ok(6))
    qed
    with crash v6 show ?thesis by blast
  qed
qed

theorem main_panics_witness:
  "ParseCIDR ''192.168.1.0/24'' = Some example_net \<and>
   (\<exists>inputs. main \<lparr>subnet_flag = ''192.168.1.0/24'', self_flag = ''router''\<rparr> None inputs = Panics)"
proof -
  have p: "ParseCIDR ''192.168.1.0/24'' = Some example_net" by (simp add: default_flags example_net_def)
  have n: "ParseIP ''router'' = None" by (simp add: ParseIP_def)
  show ?thesis
    using main_panics [of "\<lparr>subnet_flag = ''192.168.1.0/24'', self_flag = ''router''\<rparr>" example_net] p n
    by (simp add: example_net_def)
qed

end
