(* ===== verification/Marshal.thy ===== *)
theory Marshal
  imports Options
begin

text \<open>
  The rest of \<^verbatim>\<open>uio/buffer.go\<close>: the interfaces \<^verbatim>\<open>Marshaler\<close> and \<^verbatim>\<open>Unmarshaler\<close> with the helpers that turn
  an object into bytes and back, and the operations that exchange values of fixed size.
\<close>

section \<open>Operations\<close>

definition Buffer_Data :: "'a Buffer_scheme \<Rightarrow> byte list" where "Buffer_Data b = data b"

definition Lexer_Error :: "Lexer \<Rightarrow> go_error option" where "Lexer_Error l = err l"

text \<open>The byte order of the machine is a parameter.\<close>

definition NewNativeEndianBuffer :: "byteOrder \<Rightarrow> byte list \<Rightarrow> Lexer" where
  "NewNativeEndianBuffer native b = NewLexer (NewBuffer b) native"

text \<open>\<open>Append\<close> returns the appended zero bytes, which the caller may fill in (\<open>fill\<close>).\<close>

definition Append :: "nat \<Rightarrow> Lexer \<Rightarrow> byte list \<times> Lexer" where
  "Append n l = (let l = WriteN n l in (drop (length (data l) - n) (data l), l))"

definition Lexer_Write :: "byte list \<Rightarrow> Lexer \<Rightarrow> (nat \<times> go_error option) \<times> Lexer" where
  "Lexer_Write p l = ((go_copied (zeros (length p)) p, None), fill p (length p) (WriteN (length p) l))"

section \<open>Marshalers\<close>

type_synonym marshal = "Lexer \<Rightarrow> Lexer outcome"
type_synonym 'a unmarshal = "('a \<times> go_error option) reader"

definition ToBytes :: "marshal \<Rightarrow> byteOrder \<Rightarrow> byte list outcome" where
  "ToBytes m ord = obind (m (NewLexer (NewBuffer []) ord)) (\<lambda>l. Returns (Buffer_Data l))"

definition FromBytes :: "'a unmarshal \<Rightarrow> byte list \<Rightarrow> byteOrder \<Rightarrow> 'a \<times> go_error option" where
  "FromBytes obj b ord = fst (run_state obj (NewLexer (NewBuffer b) ord))"

definition ToBigEndian :: "marshal \<Rightarrow> byte list outcome" where
  "ToBigEndian m = obind (m (NewBigEndianBuffer [])) (\<lambda>l. Returns (Buffer_Data l))"

definition FromBigEndian :: "'a unmarshal \<Rightarrow> byte list \<Rightarrow> 'a \<times> go_error option" where
  "FromBigEndian obj b = fst (run_state obj (NewBigEndianBuffer b))"

definition ToLittleEndian :: "marshal \<Rightarrow> byte list outcome" where
  "ToLittleEndian m = obind (m (NewLittleEndianBuffer [])) (\<lambda>l. Returns (Buffer_Data l))"

definition FromLittleEndian :: "'a unmarshal \<Rightarrow> byte list \<Rightarrow> 'a \<times> go_error option" where
  "FromLittleEndian obj b = fst (run_state obj (NewLittleEndianBuffer b))"

text \<open>
  The contract of an object with both methods: \<open>Marshal\<close> appends an encoding to whatever is in the
  buffer, and \<open>Unmarshal\<close> of exactly that encoding yields the object, in a normal form.
\<close>

locale marshaler =
  fixes Marshal :: "'a \<Rightarrow> marshal" and Unmarshal :: "'a unmarshal" and ok :: "'a \<Rightarrow> bool"
    and enc :: "byteOrder \<Rightarrow> 'a \<Rightarrow> byte list" and norm :: "'a \<Rightarrow> 'a"
  assumes Marshal_appends: "ok x \<Longrightarrow> Marshal x l = Returns (l\<lparr>data := data l @ enc (order l) x\<rparr>)"
    and Unmarshal_enc: "ok x \<Longrightarrow> data l = enc (order l) x \<Longrightarrow> err l = None \<Longrightarrow>
      fst (run_state Unmarshal l) = (norm x, None)"
begin

lemma ToBytes_enc: "ok x \<Longrightarrow> ToBytes (Marshal x) ord = Returns (enc ord x)"
  by (simp add: ToBytes_def Marshal_appends Buffer_Data_def NewLexer_def NewBuffer_def)

lemma FromBytes_enc: "ok x \<Longrightarrow> FromBytes Unmarshal (enc ord x) ord = (norm x, None)"
  by (simp add: FromBytes_def Unmarshal_enc NewLexer_def NewBuffer_def)

text \<open>Two objects written one after the other: the second does not disturb the first.\<close>

lemma Marshal_twice:
  "ok x \<Longrightarrow> ok y \<Longrightarrow> obind (Marshal x l) (Marshal y) =
    Returns (l\<lparr>data := data l @ enc (order l) x @ enc (order l) y\<rparr>)"
  by (simp add: Marshal_appends)

end

lemma endian_helpers:
  "ToBigEndian m = ToBytes m BigEndian" "ToLittleEndian m = ToBytes m LittleEndian"
  "FromBigEndian obj b = FromBytes obj b BigEndian" "FromLittleEndian obj b = FromBytes obj b LittleEndian"
  by (simp_all add: ToBigEndian_def ToLittleEndian_def ToBytes_def FromBigEndian_def FromLittleEndian_def
      FromBytes_def NewBigEndianBuffer_def NewLittleEndianBuffer_def)

interpretation options: marshaler Options_Marshal Options_Unmarshal marshalable
  "\<lambda>_ opts. wire (items_of_options opts) 0" drop_empty
proof
  show "fst (run_state Options_Unmarshal l) = (drop_empty opts, None)"
    if "marshalable opts" "data l = wire (items_of_options opts) 0" "err l = None" for opts l
    using Options_roundtrip [OF that(1), of l 0] that(2,3) by auto
qed (simp add: Options_Marshal_wire)

section \<open>Values of fixed size\<close>

text \<open>
  What \<^verbatim>\<open>encoding/binary\<close> can read and write: unsigned integers of the four widths, which also stand
  for the other basic types of the same width, and arrays, slices and structs of such values.
\<close>

datatype fixed = FUint8 byte | FUint16 u16 | FUint32 u32 | FUint64 u64 | FSeq "fixed list"

fun fixed_size :: "fixed \<Rightarrow> nat" where
  "fixed_size (FUint8 _) = 1"
| "fixed_size (FUint16 _) = 2"
| "fixed_size (FUint32 _) = 4"
| "fixed_size (FUint64 _) = 8"
| "fixed_size (FSeq fs) = sum_list (map fixed_size fs)"

fun fixed_bytes :: "byteOrder \<Rightarrow> fixed \<Rightarrow> byte list" where
  "fixed_bytes ord (FUint8 v) = [v]"
| "fixed_bytes ord (FUint16 v) = PutUint16 ord v"
| "fixed_bytes ord (FUint32 v) = PutUint32 ord v"
| "fixed_bytes ord (FUint64 v) = PutUint64 ord v"
| "fixed_bytes ord (FSeq fs) = concat (map (fixed_bytes ord) fs)"

text \<open>Decoding keeps the shape of the value it overwrites, and returns what is left of the bytes.\<close>

fun fixed_decode :: "byteOrder \<Rightarrow> fixed \<Rightarrow> byte list \<Rightarrow> fixed \<times> byte list"
  and fixed_decodes :: "byteOrder \<Rightarrow> fixed list \<Rightarrow> byte list \<Rightarrow> fixed list \<times> byte list" where
  "fixed_decode ord (FUint8 _) bs = (FUint8 (hd bs), drop 1 bs)"
| "fixed_decode ord (FUint16 _) bs = (FUint16 (Uint16_of ord (take 2 bs)), drop 2 bs)"
| "fixed_decode ord (FUint32 _) bs = (FUint32 (Uint32_of ord (take 4 bs)), drop 4 bs)"
| "fixed_decode ord (FUint64 _) bs = (FUint64 (Uint64_of ord (take 8 bs)), drop 8 bs)"
| "fixed_decode ord (FSeq fs) bs = (case fixed_decodes ord fs bs of (gs, r) \<Rightarrow> (FSeq gs, r))"
| "fixed_decodes ord [] bs = ([], bs)"
| "fixed_decodes ord (f # fs) bs = (case fixed_decode ord f bs of (g, r) \<Rightarrow>
     case fixed_decodes ord fs r of (gs, q) \<Rightarrow> (g # gs, q))"

text \<open>
  \<^verbatim>\<open>binary.Read\<close> fills a scratch slice of the size of the value through \<open>Lexer_Read\<close>; one call fills it
  or fails, and none is made for a value of size 0. Then it decodes. \<^verbatim>\<open>binary.Write\<close> makes one call
  of \<open>Lexer_Write\<close>. Recording a nil error changes nothing.
\<close>

definition record_error :: "go_error option \<Rightarrow> Lexer \<Rightarrow> Lexer" where
  "record_error e l = (case e of None \<Rightarrow> l | Some e \<Rightarrow> setError e l)"

definition Lexer_ReadData :: "fixed \<Rightarrow> fixed reader" where
  "Lexer_ReadData d = State (\<lambda>l.
     if fixed_size d = 0 then (fst (fixed_decode (order l) d []), l)
     else case run_state (Lexer_Read (zeros (fixed_size d))) l of ((bs, n, e), l') \<Rightarrow>
       (if e = None then fst (fixed_decode (order l') d bs) else d, record_error e l'))"

definition Lexer_WriteData :: "fixed \<Rightarrow> Lexer \<Rightarrow> Lexer" where
  "Lexer_WriteData d l = (case Lexer_Write (fixed_bytes (order l) d) l of ((n, e), l') \<Rightarrow> record_error e l')"

text \<open>Two values of the same shape: what a type fixes.\<close>

fun same_shape :: "fixed \<Rightarrow> fixed \<Rightarrow> bool" where
  "same_shape (FUint8 _) (FUint8 _) = True"
| "same_shape (FUint16 _) (FUint16 _) = True"
| "same_shape (FUint32 _) (FUint32 _) = True"
| "same_shape (FUint64 _) (FUint64 _) = True"
| "same_shape (FSeq fs) (FSeq gs) = list_all2 same_shape fs gs"
| "same_shape _ _ = False"

lemma length_fixed_bytes: "length (fixed_bytes ord d) = fixed_size d"
  by (induction d) (auto simp: length_concat comp_def intro!: arg_cong [where f = sum_list] map_cong)

lemma same_shape_size: "same_shape s d \<Longrightarrow> fixed_size s = fixed_size d"
proof (induction s d rule: same_shape.induct)
  case (5 fs gs)
  then have "map fixed_size fs = map fixed_size gs"
    by (auto simp: list_all2_conv_all_nth list_eq_iff_nth_eq)
  then show ?case by simp
qed auto

lemma fixed_decode_bytes:
  "same_shape s d \<Longrightarrow> fixed_decode ord s (fixed_bytes ord d @ r) = (d, r)"
  "list_all2 same_shape ss ds \<Longrightarrow> fixed_decodes ord ss (concat (map (fixed_bytes ord) ds) @ r) = (ds, r)"
proof (induction ord s "fixed_bytes ord d @ r" and ord ss "concat (map (fixed_bytes ord) ds) @ r"
    arbitrary: d r and ds r rule: fixed_decode_fixed_decodes.induct)
  case (7 ord f fs)
  then obtain g gs where "ds = g # gs" "same_shape f g" "list_all2 same_shape fs gs"
    by (auto simp: list_all2_Cons1)
  with 7 show ?case by simp
qed (auto elim: same_shape.elims)

lemma run_Lexer_Read:
  "run_state (Lexer_Read p) l =
    (if length p \<le> length (data l) then ((take (length p) (data l), length p, None), advance (length p) l)
     else let l' = setError (BufferTooShort (byteCount l) (length (data l)) (length p)) l in ((p, 0, err l'), l'))"
  by (simp add: Lexer_Read_def run_Consume go_copy_exact go_copied_def Let_def)

lemma Lexer_WriteData_eq: "Lexer_WriteData d l = l\<lparr>data := data l @ fixed_bytes (order l) d\<rparr>"
  by (simp add: Lexer_WriteData_def Lexer_Write_def record_error_def fill_WriteN go_copy_exact)

lemma fixed_decode_prefix:
  "same_shape s d \<Longrightarrow> fst (fixed_decode ord s (fixed_bytes ord d)) = d"
  using fixed_decode_bytes(1) [of s d ord "[]"] by simp

lemma run_Lexer_ReadData:
  assumes "same_shape s d" and "data l = fixed_bytes (order l) d @ r"
  shows "run_state (Lexer_ReadData s) l = (d, advance (fixed_size d) l)"
proof (cases "fixed_size d = 0")
  case True
  then have "fixed_bytes (order l) d = []" using length_fixed_bytes [of "order l" d] by simp
  with fixed_decode_prefix [OF assms(1), of "order l"] True same_shape_size [OF assms(1)] show ?thesis
    by (simp add: Lexer_ReadData_def)
next
  case False
  with assms fixed_decode_prefix [OF assms(1), of "order l"] same_shape_size [OF assms(1)]
  show ?thesis by (simp add: Lexer_ReadData_def run_Lexer_Read record_error_def length_fixed_bytes)
qed

section \<open>Properties\<close>

text \<open>
  Values of fixed size survive a lexer: what \<open>Lexer_WriteData\<close> puts into an empty lexer, in
  either byte order, \<open>Lexer_ReadData\<close> of a value of the same shape reads back, consuming exactly the size
  of the value; with fewer bytes left it leaves the value alone and records the error.
\<close>

lemma Lexer_WriteData_ReadData:
  assumes "same_shape s d" and "data l = []"
  shows "run_state (Lexer_ReadData s) (Lexer_WriteData d l) = (d, advance (fixed_size d) (Lexer_WriteData d l)) \<and>
    (\<forall>l'. length (data l') < fixed_size s \<longrightarrow> run_state (Lexer_ReadData s) l' =
      (s, setError (BufferTooShort (byteCount l') (length (data l')) (fixed_size s)) l'))"
proof -
  have "run_state (Lexer_ReadData s) l' = (s, setError (BufferTooShort (byteCount l') (length (data l')) (fixed_size s)) l')"
    if "length (data l') < fixed_size s" for l'
    using that by (auto simp: Lexer_ReadData_def run_Lexer_Read Let_def record_error_def setError_def split: option.splits)
  with run_Lexer_ReadData [OF assms(1), of "Lexer_WriteData d l" "[]"] assms(2) show ?thesis by (simp add: Lexer_WriteData_eq)
qed

text \<open>
  The encoding of the options does not depend on a byte order: through any of the helpers for
  marshalers, in any byte order, the options come back as they went in, up to options without data.
\<close>

lemma ToBytes_FromBytes:
  assumes "marshalable opts"
  shows "\<exists>b. ToBytes (Options_Marshal opts) ord = Returns b \<and> ToBigEndian (Options_Marshal opts) = Returns b \<and>
    ToLittleEndian (Options_Marshal opts) = Returns b \<and> FromBytes Options_Unmarshal b ord' = (drop_empty opts, None) \<and>
    FromBigEndian Options_Unmarshal b = (drop_empty opts, None) \<and>
    FromLittleEndian Options_Unmarshal b = (drop_empty opts, None)"
  using options.ToBytes_enc [OF assms] options.FromBytes_enc [OF assms] by (simp add: endian_helpers)

end
