(* ===== verification/Slice.thy ===== *)
theory Slice
  imports Prelude
begin

text \<open>
  Go slices with their capacity, for the code that reslices received buffers. A slice is a window
  at the start of an array: \<open>arr\<close> holds the bytes up to the capacity, the first \<open>slen\<close> of them are
  the elements. Indexing is bounded by the length; reslicing with an upper bound only by the
  capacity.
\<close>

record slice =
  arr :: "byte list"
  slen :: nat

text \<open>A slice without spare capacity, and the elements of a slice.\<close>

definition mk_slice :: "byte list \<Rightarrow> slice" where
  "mk_slice bs = \<lparr>arr = bs, slen = length bs\<rparr>"

definition elems :: "slice \<Rightarrow> byte list" where
  "elems s = take (slen s) (arr s)"

definition wf_slice :: "slice \<Rightarrow> bool" where
  "wf_slice s \<longleftrightarrow> slen s \<le> length (arr s)"

text \<open>\<open>s[i]\<close>, \<open>s[i:j]\<close>, \<open>s[i:]\<close> and \<open>s[i] = v\<close>.\<close>

definition s_index :: "slice \<Rightarrow> nat \<Rightarrow> byte outcome" where
  "s_index s i = (if i < slen s then Returns (arr s ! i) else Panics)"

definition s_slice :: "slice \<Rightarrow> nat \<Rightarrow> nat \<Rightarrow> slice outcome" where
  "s_slice s i j = (if i \<le> j \<and> j \<le> length (arr s)
     then Returns \<lparr>arr = drop i (arr s), slen = j - i\<rparr> else Panics)"

definition s_from :: "slice \<Rightarrow> nat \<Rightarrow> slice outcome" where
  "s_from s i = s_slice s i (slen s)"

definition s_set :: "slice \<Rightarrow> nat \<Rightarrow> byte \<Rightarrow> slice outcome" where
  "s_set s i v = (if i < slen s then Returns (s\<lparr>arr := (arr s)[i := v]\<rparr>) else Panics)"

text \<open>
  \<open>binary.BigEndian.Uint16\<close> reads the first two elements and \<open>PutUint16\<close> writes them; both panic on
  a shorter slice.
\<close>

definition s_Uint16 :: "slice \<Rightarrow> u16 outcome" where
  "s_Uint16 s = (if 2 \<le> slen s then Returns (Uint16_of BigEndian (take 2 (arr s))) else Panics)"

text \<open>
  A write through \<open>s[i:]\<close> or \<open>s[i:j]\<close> changes the array of \<open>s\<close>: \<open>s_put16 s i v\<close> is
  \<open>PutUint16(s[i:], v)\<close> and \<open>s_copy s i j src\<close> is \<open>copy(s[i:j], src)\<close>.
\<close>

definition overwrite :: "byte list \<Rightarrow> nat \<Rightarrow> byte list \<Rightarrow> byte list" where
  "overwrite xs i ys = take i xs @ ys @ drop (i + length ys) xs"

definition s_put16 :: "slice \<Rightarrow> nat \<Rightarrow> u16 \<Rightarrow> slice outcome" where
  "s_put16 s i v = obind (s_from s i) (\<lambda>t.
     if 2 \<le> slen t then Returns (s\<lparr>arr := overwrite (arr s) i (PutUint16 BigEndian v)\<rparr>) else Panics)"

definition s_copy :: "slice \<Rightarrow> nat \<Rightarrow> nat \<Rightarrow> byte list \<Rightarrow> slice outcome" where
  "s_copy s i j src = obind (s_slice s i j) (\<lambda>t.
     Returns (s\<lparr>arr := overwrite (arr s) i (take (slen t) src)\<rparr>))"

section \<open>Lemmas\<close>

lemma mk_slice_simps [simp]: "arr (mk_slice bs) = bs" "slen (mk_slice bs) = length bs"
  "elems (mk_slice bs) = bs" "wf_slice (mk_slice bs)"
  by (simp_all add: mk_slice_def elems_def wf_slice_def)

lemma length_overwrite: "i + length ys \<le> length xs \<Longrightarrow> length (overwrite xs i ys) = length xs"
  by (simp add: overwrite_def)

lemma slice_eqI: "slen s = length bs \<Longrightarrow> arr s = bs \<Longrightarrow> s = mk_slice bs"
  by (simp add: mk_slice_def)

lemma s_set_mk: "i < length bs \<Longrightarrow> s_set (mk_slice bs) i v = Returns (mk_slice (overwrite bs i [v]))"
  by (simp add: s_set_def mk_slice_def overwrite_def upd_conv_take_nth_drop)

lemma s_put16_mk:
  "i + 2 \<le> length bs \<Longrightarrow>
    s_put16 (mk_slice bs) i v = Returns (mk_slice (overwrite bs i (PutUint16 BigEndian v)))"
  by (simp add: s_put16_def s_from_def s_slice_def mk_slice_def length_overwrite)

lemma s_copy_mk:
  "i \<le> j \<Longrightarrow> j \<le> length bs \<Longrightarrow>
    s_copy (mk_slice bs) i j src = Returns (mk_slice (overwrite bs i (take (j - i) src)))"
  by (simp add: s_copy_def s_slice_def mk_slice_def length_overwrite)

lemma s_index_mk: "i < length bs \<Longrightarrow> s_index (mk_slice bs) i = Returns (bs ! i)"
  by (simp add: s_index_def)

lemma s_slice_mk:
  "i \<le> j \<Longrightarrow> j \<le> length bs \<Longrightarrow>
    s_slice (mk_slice bs) i j = Returns \<lparr>arr = drop i bs, slen = j - i\<rparr>"
  by (simp add: s_slice_def)

lemma s_from_Uint16_mk:
  "i + 2 \<le> length bs \<Longrightarrow>
    obind (s_from (mk_slice bs) i) s_Uint16 = Returns (Uint16_of BigEndian (take 2 (drop i bs)))"
  by (simp add: s_from_def s_slice_def s_Uint16_def)

lemmas slice_mk = s_set_mk s_put16_mk s_copy_mk s_index_mk s_slice_mk s_from_Uint16_mk

text \<open>The same operations on a slice with spare capacity.\<close>

lemma slice_at:
  assumes "n \<le> length bs"
  shows "i < n \<Longrightarrow> s_set \<lparr>arr = bs, slen = n\<rparr> i v = Returns \<lparr>arr = overwrite bs i [v], slen = n\<rparr>"
    and "i + 2 \<le> n \<Longrightarrow> s_put16 \<lparr>arr = bs, slen = n\<rparr> i w =
      Returns \<lparr>arr = overwrite bs i (PutUint16 BigEndian w), slen = n\<rparr>"
    and "i \<le> j \<Longrightarrow> j \<le> n \<Longrightarrow> s_copy \<lparr>arr = bs, slen = n\<rparr> i j src =
      Returns \<lparr>arr = overwrite bs i (take (j - i) src), slen = n\<rparr>"
    and "i < n \<Longrightarrow> s_index \<lparr>arr = bs, slen = n\<rparr> i = Returns (bs ! i)"
    and "i \<le> j \<Longrightarrow> j \<le> n \<Longrightarrow> s_slice \<lparr>arr = bs, slen = n\<rparr> i j = Returns \<lparr>arr = drop i bs, slen = j - i\<rparr>"
    and "i + 2 \<le> n \<Longrightarrow> obind (s_from \<lparr>arr = bs, slen = n\<rparr> i) (\<lambda>t. obind (s_Uint16 t) f) =
      f (Uint16_of BigEndian (take 2 (drop i bs)))"
    and "i + 2 \<le> n \<Longrightarrow> obind (s_from \<lparr>arr = bs, slen = n\<rparr> i) s_Uint16 =
      Returns (Uint16_of BigEndian (take 2 (drop i bs)))"
  using assms
  by (simp_all add: s_set_def overwrite_def upd_conv_take_nth_drop s_put16_def s_from_def s_slice_def s_copy_def
      s_index_def s_Uint16_def le_diff_conv2)

end
