(* ===== verification/IPv4Hdr.thy ===== *)
theory IPv4Hdr
  imports Slice NetIP Uio
begin

text \<open>
  \<^verbatim>\<open>dhcp4client/ipv4.go\<close>: IPv4 and UDP headers stored in slices, the Internet checksum of
  RFC 1071, and \<open>udp4pkt\<close>, which wraps a payload in both headers.
\<close>

section \<open>Field offsets\<close>

definition versIHL :: nat where [simp]: "versIHL = 0"
definition tos :: nat where [simp]: "tos = 1"
definition totalLen :: nat where [simp]: "totalLen = 2"
definition id_off :: nat where [simp]: "id_off = 4"
definition flagsFO :: nat where [simp]: "flagsFO = 6"
definition ttl :: nat where [simp]: "ttl = 8"
definition protocol :: nat where [simp]: "protocol = 9"
definition checksum :: nat where [simp]: "checksum = 10"
definition srcAddr :: nat where [simp]: "srcAddr = 12"
definition dstAddr :: nat where [simp]: "dstAddr = 16"

definition IPv4MinimumSize :: nat where [simp]: "IPv4MinimumSize = 20"
definition IPv4MaximumHeaderSize :: nat where [simp]: "IPv4MaximumHeaderSize = 60"
definition IPv4AddressSize :: nat where [simp]: "IPv4AddressSize = 4"
definition IPv4Version :: nat where [simp]: "IPv4Version = 4"

definition IPv4Broadcast :: net_IP where "IPv4Broadcast = Some [255, 255, 255, 255]"
definition IPv4Any :: net_IP where "IPv4Any = Some [0, 0, 0, 0]"

definition IPv4FlagMoreFragments :: byte where "IPv4FlagMoreFragments = 1"
definition IPv4FlagDontFragment :: byte where "IPv4FlagDontFragment = 2"

definition udpSrcPort :: nat where [simp]: "udpSrcPort = 0"
definition udpDstPort :: nat where [simp]: "udpDstPort = 2"
definition udpLength :: nat where [simp]: "udpLength = 4"
definition udpChecksum :: nat where [simp]: "udpChecksum = 6"

definition UDPMinimumSize :: nat where [simp]: "UDPMinimumSize = 8"

type_synonym TransportProtocolNumber = u32

definition UDPProtocolNumber :: TransportProtocolNumber where [simp]: "UDPProtocolNumber = 17"

record IPv4Fields =
  IHL :: byte
  TOS :: byte
  TotalLength :: u16
  ID :: u16
  Flags :: byte
  FragmentOffset :: u16
  TTL :: byte
  Protocol :: byte
  Checksum_field :: u16
  SrcAddr :: net_IP
  DstAddr :: net_IP

record UDPFields =
  SrcPort :: u16
  DstPort :: u16
  UDP_len :: u16
  UDP_sum :: u16

section \<open>The Internet checksum\<close>

text \<open>The sum of the 16-bit words of an even number of bytes, in a 32-bit accumulator.\<close>

fun sum_loop :: "byte list \<Rightarrow> u32 \<Rightarrow> u32" where
  "sum_loop (a # b # buf) v = sum_loop buf (v + (push_bit 8 (ucast a) + ucast b))"
| "sum_loop _ v = v"

definition ChecksumCombine :: "u16 \<Rightarrow> u16 \<Rightarrow> u16" where
  "ChecksumCombine a b = (let v = (ucast a :: u32) + ucast b in ucast (v + drop_bit 16 v))"

definition calculateChecksum :: "byte list \<Rightarrow> u32 \<Rightarrow> u16" where
  "calculateChecksum buf initial =
    (let v = initial; l = length buf;
         (l, v) = (if odd l then (l - 1, v + push_bit 8 (ucast (buf ! (l - 1)))) else (l, v));
         v = sum_loop (take l buf) v in
     ChecksumCombine (ucast v) (ucast (drop_bit 16 v)))"

definition Checksum :: "byte list \<Rightarrow> u16 \<Rightarrow> u16" where
  "Checksum buf initial = calculateChecksum buf (ucast initial)"

definition PseudoHeaderChecksum :: "TransportProtocolNumber \<Rightarrow> net_IP \<Rightarrow> net_IP \<Rightarrow> u16" where
  "PseudoHeaderChecksum proto src dst =
    (let xsum = Checksum (bytes_of src) 0;
         xsum = Checksum (bytes_of dst) xsum in
     Checksum [0, ucast proto] xsum)"

section \<open>IPv4 headers\<close>

definition IPVersion :: "byte list \<Rightarrow> int" where
  "IPVersion b = (if length b < versIHL + 1 then - 1 else int (unat (drop_bit 4 (b ! versIHL))))"

definition IPv4_HeaderLength :: "slice \<Rightarrow> byte outcome" where
  "IPv4_HeaderLength b = obind (s_index b versIHL) (\<lambda>v. Returns ((v AND 15) * 4))"

definition IPv4_ID :: "slice \<Rightarrow> u16 outcome" where
  "IPv4_ID b = obind (s_from b id_off) s_Uint16"

definition IPv4_Protocol :: "slice \<Rightarrow> byte outcome" where
  "IPv4_Protocol b = s_index b protocol"

definition IPv4_Flags :: "slice \<Rightarrow> byte outcome" where
  "IPv4_Flags b = obind (s_from b flagsFO) (\<lambda>t. obind (s_Uint16 t) (\<lambda>v. Returns (ucast (drop_bit 13 v))))"

definition IPv4_TTL :: "slice \<Rightarrow> byte outcome" where
  "IPv4_TTL b = s_index b ttl"

definition IPv4_FragmentOffset :: "slice \<Rightarrow> u16 outcome" where
  "IPv4_FragmentOffset b = obind (s_from b flagsFO) (\<lambda>t. obind (s_Uint16 t) (\<lambda>v. Returns (push_bit 3 v)))"

definition IPv4_TotalLength :: "slice \<Rightarrow> u16 outcome" where
  "IPv4_TotalLength b = obind (s_from b totalLen) s_Uint16"

definition IPv4_Checksum :: "slice \<Rightarrow> u16 outcome" where
  "IPv4_Checksum b = obind (s_from b checksum) s_Uint16"

definition IPv4_SourceAddress :: "slice \<Rightarrow> net_IP outcome" where
  "IPv4_SourceAddress b = obind (s_slice b srcAddr (srcAddr + IPv4AddressSize)) (\<lambda>t. Returns (Some (elems t)))"

definition IPv4_DestinationAddress :: "slice \<Rightarrow> net_IP outcome" where
  "IPv4_DestinationAddress b = obind (s_slice b dstAddr (dstAddr + IPv4AddressSize)) (\<lambda>t. Returns (Some (elems t)))"

definition IPv4_TransportProtocol :: "slice \<Rightarrow> TransportProtocolNumber outcome" where
  "IPv4_TransportProtocol b = obind (IPv4_Protocol b) (\<lambda>p. Returns (ucast p))"

definition IPv4_PayloadLength :: "slice \<Rightarrow> u16 outcome" where
  "IPv4_PayloadLength b = obind (IPv4_TotalLength b) (\<lambda>t. obind (IPv4_HeaderLength b) (\<lambda>h.
     Returns (t - ucast h)))"

definition IPv4_Payload :: "slice \<Rightarrow> slice outcome" where
  "IPv4_Payload b = obind (IPv4_HeaderLength b) (\<lambda>h. obind (s_from b (unat h)) (\<lambda>t.
     obind (IPv4_PayloadLength b) (\<lambda>n. s_slice t 0 (unat n))))"

definition IPv4_TOS :: "slice \<Rightarrow> (byte \<times> u32) outcome" where
  "IPv4_TOS b = obind (s_index b tos) (\<lambda>v. Returns (v, 0))"

definition IPv4_SetTOS :: "slice \<Rightarrow> byte \<Rightarrow> u32 \<Rightarrow> slice outcome" where
  "IPv4_SetTOS b v _ = s_set b tos v"

definition IPv4_SetTotalLength :: "slice \<Rightarrow> u16 \<Rightarrow> slice outcome" where
  "IPv4_SetTotalLength b v = s_put16 b totalLen v"

definition IPv4_SetChecksum :: "slice \<Rightarrow> u16 \<Rightarrow> slice outcome" where
  "IPv4_SetChecksum b v = s_put16 b checksum v"

definition IPv4_SetFlagsFragmentOffset :: "slice \<Rightarrow> byte \<Rightarrow> u16 \<Rightarrow> slice outcome" where
  "IPv4_SetFlagsFragmentOffset b flags offset =
    (let v = push_bit 13 (ucast flags) OR drop_bit 3 offset in s_put16 b flagsFO v)"

definition IPv4_SetID :: "slice \<Rightarrow> u16 \<Rightarrow> slice outcome" where
  "IPv4_SetID b v = s_put16 b id_off v"

definition IPv4_SetSourceAddress :: "slice \<Rightarrow> net_IP \<Rightarrow> slice outcome" where
  "IPv4_SetSourceAddress b addr = s_copy b srcAddr (srcAddr + IPv4AddressSize) (bytes_of (To4 addr))"

definition IPv4_SetDestinationAddress :: "slice \<Rightarrow> net_IP \<Rightarrow> slice outcome" where
  "IPv4_SetDestinationAddress b addr = s_copy b dstAddr (dstAddr + IPv4AddressSize) (bytes_of (To4 addr))"

definition IPv4_CalculateChecksum :: "slice \<Rightarrow> u16 outcome" where
  "IPv4_CalculateChecksum b = obind (IPv4_HeaderLength b) (\<lambda>h. obind (s_slice b 0 (unat h)) (\<lambda>t.
     Returns (Checksum (elems t) 0)))"

definition IPv4_Encode :: "slice \<Rightarrow> IPv4Fields \<Rightarrow> slice outcome" where
  "IPv4_Encode b i =
     obind (s_set b versIHL (push_bit 4 4 OR ((IHL i div 4) AND 15))) (\<lambda>b.
     obind (s_set b tos (TOS i)) (\<lambda>b.
     obind (IPv4_SetTotalLength b (TotalLength i)) (\<lambda>b.
     obind (s_put16 b id_off (ID i)) (\<lambda>b.
     obind (IPv4_SetFlagsFragmentOffset b (Flags i) (FragmentOffset i)) (\<lambda>b.
     obind (s_set b ttl (TTL i)) (\<lambda>b.
     obind (s_set b protocol (Protocol i)) (\<lambda>b.
     obind (IPv4_SetChecksum b (Checksum_field i)) (\<lambda>b.
     obind (s_copy b srcAddr (srcAddr + IPv4AddressSize) (bytes_of (SrcAddr i))) (\<lambda>b.
     s_copy b dstAddr (dstAddr + IPv4AddressSize) (bytes_of (DstAddr i)))))))))))"

definition IPv4_EncodePartial :: "slice \<Rightarrow> u16 \<Rightarrow> u16 \<Rightarrow> slice outcome" where
  "IPv4_EncodePartial b partialChecksum totalLength =
     obind (IPv4_SetTotalLength b totalLength) (\<lambda>b.
     obind (s_slice b totalLen (totalLen + 2)) (\<lambda>t.
     IPv4_SetChecksum b (NOT (Checksum (elems t) partialChecksum))))"

definition IPv4_IsValid :: "slice \<Rightarrow> int \<Rightarrow> bool outcome" where
  "IPv4_IsValid b pktSize =
    (if slen b < IPv4MinimumSize then Returns False
     else obind (IPv4_HeaderLength b) (\<lambda>h. obind (IPv4_TotalLength b) (\<lambda>t.
       let hlen = int (unat h); tlen = int (unat t) in
       if hlen > tlen \<or> tlen > pktSize then Returns False else Returns True)))"

definition IsV4MulticastAddress :: "net_IP \<Rightarrow> bool" where
  "IsV4MulticastAddress addr = (if length (bytes_of addr) \<noteq> IPv4AddressSize then False
     else (bytes_of addr ! 0) AND 240 = 224)"

section \<open>UDP headers\<close>

definition UDP_SourcePort :: "slice \<Rightarrow> u16 outcome" where
  "UDP_SourcePort b = obind (s_from b udpSrcPort) s_Uint16"

definition UDP_DestinationPort :: "slice \<Rightarrow> u16 outcome" where
  "UDP_DestinationPort b = obind (s_from b udpDstPort) s_Uint16"

definition UDP_Length :: "slice \<Rightarrow> u16 outcome" where
  "UDP_Length b = obind (s_from b udpLength) s_Uint16"

definition UDP_SetSourcePort :: "slice \<Rightarrow> u16 \<Rightarrow> slice outcome" where
  "UDP_SetSourcePort b port = s_put16 b udpSrcPort port"

definition UDP_SetDestinationPort :: "slice \<Rightarrow> u16 \<Rightarrow> slice outcome" where
  "UDP_SetDestinationPort b port = s_put16 b udpDstPort port"

definition UDP_SetChecksum :: "slice \<Rightarrow> u16 \<Rightarrow> slice outcome" where
  "UDP_SetChecksum b v = s_put16 b udpChecksum v"

definition UDP_Payload :: "slice \<Rightarrow> slice outcome" where
  "UDP_Payload b = s_from b UDPMinimumSize"

definition UDP_Checksum :: "slice \<Rightarrow> u16 outcome" where
  "UDP_Checksum b = obind (s_from b udpChecksum) s_Uint16"

definition UDP_CalculateChecksum :: "slice \<Rightarrow> u16 \<Rightarrow> u16 \<Rightarrow> u16 outcome" where
  "UDP_CalculateChecksum b partialChecksum tlen =
    (let tmp = PutUint16 BigEndian tlen;
         xsum = Checksum tmp partialChecksum in
     obind (s_slice b 0 UDPMinimumSize) (\<lambda>t. Returns (Checksum (elems t) xsum)))"

definition UDP_Encode :: "slice \<Rightarrow> UDPFields \<Rightarrow> slice outcome" where
  "UDP_Encode b u =
     obind (s_put16 b udpSrcPort (SrcPort u)) (\<lambda>b.
     obind (s_put16 b udpDstPort (DstPort u)) (\<lambda>b.
     obind (s_put16 b udpLength (UDP_len u)) (\<lambda>b.
     s_put16 b udpChecksum (UDP_sum u))))"

section \<open>A datagram with its headers\<close>

text \<open>
  \<open>udp4pkt\<close> fills in the headers through the slices that \<open>WriteN\<close> returns; \<open>fill\<close> writes the
  finished header to its place in the buffer. The fields it does not set are zero. A nil address
  (\<open>src\<close>) makes it panic.
\<close>

definition zero_IPv4Fields :: IPv4Fields where
  "zero_IPv4Fields = \<lparr>IHL = 0, TOS = 0, TotalLength = 0, ID = 0, Flags = 0, FragmentOffset = 0,
     TTL = 0, Protocol = 0, Checksum_field = 0, SrcAddr = None, DstAddr = None\<rparr>"

definition udp4pkt :: "byte list \<Rightarrow> udp_addr \<Rightarrow> udp_addr option \<Rightarrow> byte list outcome" where
  "udp4pkt packet dest src = (case src of None \<Rightarrow> Panics | Some (src_IP, src_Port) \<Rightarrow>
    let (dest_IP, dest_Port) = dest;
        ipLen = IPv4MinimumSize;
        udpLen = UDPMinimumSize;
        hdr = NewBigEndianBuffer [];
        ipv4fields = zero_IPv4Fields\<lparr>IHL := of_nat IPv4MinimumSize,
          TotalLength := of_nat (ipLen + udpLen + length packet), TTL := 30,
          Protocol := ucast UDPProtocolNumber, SrcAddr := To4 src_IP, DstAddr := To4 dest_IP\<rparr>;
        hdr = WriteN ipLen hdr in
    obind (IPv4_Encode (mk_slice (zeros ipLen)) ipv4fields) (\<lambda>ipv4hdr.
    obind (IPv4_CalculateChecksum ipv4hdr) (\<lambda>xsum.
    obind (IPv4_SetChecksum ipv4hdr (NOT xsum)) (\<lambda>ipv4hdr.
    let hdr = fill (elems ipv4hdr) ipLen hdr;
        hdr = WriteN udpLen hdr in
    obind (UDP_Encode (mk_slice (zeros udpLen))
        \<lparr>SrcPort = of_nat src_Port, DstPort = of_nat dest_Port, UDP_len = of_nat (udpLen + length packet),
         UDP_sum = 0\<rparr>) (\<lambda>udphdr.
    obind (IPv4_TransportProtocol ipv4hdr) (\<lambda>proto.
    let xsum = Checksum packet (PseudoHeaderChecksum proto (SrcAddr ipv4fields) (DstAddr ipv4fields)) in
    obind (UDP_Length udphdr) (\<lambda>ulen.
    obind (UDP_CalculateChecksum udphdr xsum ulen) (\<lambda>usum.
    obind (UDP_SetChecksum udphdr (NOT usum)) (\<lambda>udphdr.
    let hdr = fill (elems udphdr) udpLen hdr in
    Returns (data (WriteBytes packet hdr)))))))))))"

section \<open>What the checksum is\<close>

text \<open>
  RFC 1071: the ones' complement sum of the 16-bit words, an odd last byte padded with zero. A
  ones' complement sum is the sum modulo 65535, with 0 only for a sum of zeros.
\<close>

fun words_sum :: "byte list \<Rightarrow> nat" where
  "words_sum (a # b # buf) = unat a * 256 + unat b + words_sum buf"
| "words_sum [a] = unat a * 256"
| "words_sum [] = 0"

definition ones_sum :: "nat \<Rightarrow> nat" where
  "ones_sum n = (if n = 0 then 0 else if n mod 65535 = 0 then 65535 else n mod 65535)"

lemma ones_sum_cong: "(n = 0 \<longleftrightarrow> m = 0) \<Longrightarrow> n mod 65535 = m mod 65535 \<Longrightarrow> ones_sum n = ones_sum m"
  by (simp add: ones_sum_def)

lemma ones_sum_mod [simp]: "ones_sum n mod 65535 = n mod 65535"
  by (simp add: ones_sum_def)

lemma ones_sum_eq_0 [simp]: "ones_sum n = 0 \<longleftrightarrow> n = 0"
  by (simp add: ones_sum_def)

lemma ones_sum_le: "ones_sum n \<le> 65535"
  by (simp add: ones_sum_def order.strict_implies_order)

lemma ones_sum_add [simp]:
  "ones_sum (ones_sum m + n) = ones_sum (m + n)" "ones_sum (m + ones_sum n) = ones_sum (m + n)"
  by (auto intro!: ones_sum_cong) (metis mod_add_left_eq mod_add_right_eq ones_sum_mod)+

lemma ones_sum_complement: "ones_sum (n + (65535 - ones_sum n)) = 65535"
proof -
  have le: "ones_sum n \<le> 65535" by (rule ones_sum_le)
  have "(n + (65535 - ones_sum n)) mod 65535 = (ones_sum n + (65535 - ones_sum n)) mod 65535"
    by (metis mod_add_left_eq ones_sum_mod)
  with le have z: "(n + (65535 - ones_sum n)) mod 65535 = 0" by simp
  have "n + (65535 - ones_sum n) \<noteq> 0" using le by (cases "n = 0") (auto simp: ones_sum_def)
  with z show ?thesis by (simp add: ones_sum_def)
qed

lemma words_sum_append: "even (length xs) \<Longrightarrow> words_sum (xs @ ys) = words_sum xs + words_sum ys"
  by (induction xs rule: words_sum.induct) auto

lemma words_sum_odd:
  "odd (length buf) \<Longrightarrow> words_sum buf = words_sum (take (length buf - 1) buf) + unat (buf ! (length buf - 1)) * 256"
proof -
  assume o: "odd (length buf)"
  then have "buf = take (length buf - 1) buf @ [buf ! (length buf - 1)]"
    by (metis One_nat_def Suc_pred lessI odd_pos order_refl take_Suc_conv_app_nth take_all_iff)
  with o words_sum_append [of "take (length buf - 1) buf" "[buf ! (length buf - 1)]"] show ?thesis by simp
qed

lemma words_sum_le: "words_sum buf \<le> 65535 * ((length buf + 1) div 2)"
proof (induction buf rule: words_sum.induct)
  case (1 a b buf)
  with unat_byte_le [of a] unat_byte_le [of b] show ?case by simp
next
  case (2 a)
  with unat_byte_le [of a] show ?case by simp
qed simp

lemma unat_word16: "unat (push_bit 8 (ucast a) + ucast b :: u32) = unat a * 256 + unat b" for a b :: byte
proof -
  have "unat (push_bit 8 (ucast a) :: u32) = unat a * 256"
    using unat_byte_less [of a] by (simp add: unsigned_push_bit_eq unsigned_ucast_eq take_bit_nat_eq_self push_bit_nat_def)
  then show ?thesis
    using unat_byte_le [of a] unat_byte_le [of b]
    by (subst unat_add_lem [THEN iffD1]) (simp_all add: unsigned_ucast_eq take_bit_nat_eq_self)
qed

lemma sum_loop_value:
  "even (length buf) \<Longrightarrow> words_sum buf + unat v < 2 ^ 32 \<Longrightarrow> unat (sum_loop buf v) = words_sum buf + unat v"
proof (induction buf v rule: sum_loop.induct)
  case (1 a b buf v)
  let ?w = "push_bit 8 (ucast a) + ucast b :: u32"
  have "unat (v + ?w) = unat v + unat ?w"
    using "1.prems"(2) unat_word16 [of a b] by (subst unat_add_lem [THEN iffD1]) simp_all
  with "1.IH" "1.prems" unat_word16 [of a b] show ?case by simp
qed auto

lemma unat_ChecksumCombine: "unat (ChecksumCombine a b) = ones_sum (unat a + unat b)"
proof -
  have ab: "unat a < 65536" "unat b < 65536"
    by (rule unat_u16_less)+
  let ?v = "(ucast a :: u32) + ucast b"
  have v: "unat ?v = unat a + unat b"
    using ab by (subst unat_add_lem [THEN iffD1]) (simp_all add: unsigned_ucast_eq take_bit_nat_eq_self)
  have hi: "unat (drop_bit 16 ?v) = (unat a + unat b) div 65536"
    using v by (simp add: unat_drop_bit_div)
  have "unat (?v + drop_bit 16 ?v) = unat a + unat b + (unat a + unat b) div 65536"
    using v hi ab by (subst unat_add_lem [THEN iffD1]) simp_all
  then have "unat (ChecksumCombine a b) = (unat a + unat b + (unat a + unat b) div 65536) mod 65536"
    by (simp add: ChecksumCombine_def Let_def unsigned_ucast_eq take_bit_nat_def)
  moreover have "(n + n div 65536) mod 65536 = ones_sum n" if "n \<le> 131070" for n :: nat
  proof (cases "n < 65536")
    case True
    then show ?thesis by (cases "n = 65535") (auto simp: ones_sum_def)
  next
    case False
    then have d: "n div 65536 = 1" using that by simp
    have "(n + 1) mod 65536 = n - 65535" using False that by (subst mod_if) simp
    moreover have "n mod 65535 = (n - 65535) mod 65535" using False by (simp add: le_mod_geq)
    ultimately show ?thesis using d False that by (cases "n = 131070") (auto simp: ones_sum_def)
  qed
  ultimately show ?thesis using ab by simp
qed

text \<open>The data a 32-bit accumulator can hold: no IPv4 packet exceeds it.\<close>

lemma unat_calculateChecksum:
  assumes "words_sum buf + unat v < 2 ^ 32"
  shows "unat (calculateChecksum buf v) = ones_sum (words_sum buf + unat v)"
proof -
  define u where "u = sum_loop (take (if odd (length buf) then length buf - 1 else length buf) buf)
    (if odd (length buf) then v + push_bit 8 (ucast (buf ! (length buf - 1))) else v)"
  have "unat u = words_sum buf + unat v"
  proof (cases "odd (length buf)")
    case True
    let ?b = "buf ! (length buf - 1)"
    have p: "unat (push_bit 8 (ucast ?b) :: u32) = unat ?b * 256" using unat_word16 [of ?b 0] by simp
    note w = words_sum_odd [OF True]
    have "unat (v + push_bit 8 (ucast ?b)) = unat v + unat ?b * 256"
      using assms p w by (subst unat_add_lem [THEN iffD1]) simp_all
    with True assms w sum_loop_value [of "take (length buf - 1) buf" "v + push_bit 8 (ucast ?b)"]
    show ?thesis by (simp add: u_def)
  qed (use assms sum_loop_value in \<open>simp add: u_def\<close>)
  moreover have "calculateChecksum buf v = ChecksumCombine (ucast u) (ucast (drop_bit 16 u))"
    by (auto simp: calculateChecksum_def Let_def u_def)
  moreover have "ones_sum (n mod 65536 + n div 65536) = ones_sum n" for n :: nat
  proof (rule ones_sum_cong)
    let ?q = "n div 65536" and ?r = "n mod 65536"
    have n: "n = ?q * 65536 + ?r" by simp
    then show "(?r + ?q = 0) = (n = 0)" by auto
    have "n mod 65535 = (?q * 65535 + (?r + ?q)) mod 65535"
      by (subst n) (simp add: algebra_simps)
    then show "(?r + ?q) mod 65535 = n mod 65535" by (simp only: mod_mult_self3)
  qed
  ultimately show ?thesis
    using assms by (simp add: unat_ChecksumCombine unsigned_ucast_eq unat_drop_bit_div take_bit_nat_def)
qed

lemma unat_Checksum:
  assumes "length buf \<le> 131068"
  shows "unat (Checksum buf v) = ones_sum (words_sum buf + unat v)"
proof -
  have "unat v < 65536" by (rule unat_u16_less)
  moreover have "(length buf + 1) div 2 \<le> 65534"
    using div_le_mono [of "length buf + 1" 131069 2] assms by simp
  then have "words_sum buf \<le> 65535 * 65534"
    using words_sum_le [of buf] mult_le_mono2 le_trans by blast
  ultimately have "words_sum buf + unat (ucast v :: u32) < 2 ^ 32"
    by (simp add: unsigned_ucast_eq take_bit_nat_eq_self)
  with unat_calculateChecksum [OF this] \<open>unat v < 65536\<close> show ?thesis
    by (simp add: Checksum_def unsigned_ucast_eq take_bit_nat_eq_self)
qed

section \<open>The bytes of a wrapped datagram\<close>

definition ip4_bytes :: "net_IP \<Rightarrow> byte list" where
  "ip4_bytes ip = (case To4 ip of None \<Rightarrow> [0, 0, 0, 0] | Some b \<Rightarrow> b)"

definition ipv4_header :: "u16 \<Rightarrow> byte list \<Rightarrow> byte list \<Rightarrow> u16 \<Rightarrow> byte list" where
  "ipv4_header tlen s d c = [69, 0] @ be16 tlen @ [0, 0, 0, 0, 30, 17] @ be16 c @ s @ d"

definition udp_header :: "u16 \<Rightarrow> u16 \<Rightarrow> u16 \<Rightarrow> u16 \<Rightarrow> byte list" where
  "udp_header sp dp l c = be16 sp @ be16 dp @ be16 l @ be16 c"

lemma length_ip4_bytes [simp]: "length (ip4_bytes ip) = 4"
  using To4_length [of ip] by (auto simp: ip4_bytes_def split: option.split)

lemma zeros_numeral: "zeros (numeral n) = 0 # zeros (pred_numeral n)"
  by (simp add: zeros_def numeral_eq_Suc)

lemma zeros_Suc: "zeros 0 = []" "zeros (Suc n) = 0 # zeros n"
  by (simp_all add: zeros_def)

lemma encode_ipv4:
  "IPv4_Encode (mk_slice (zeros 20)) (zero_IPv4Fields\<lparr>IHL := 20, TotalLength := tlen, TTL := 30,
      Protocol := 17, SrcAddr := To4 s, DstAddr := To4 d\<rparr>) =
    Returns (mk_slice (ipv4_header tlen (ip4_bytes s) (ip4_bytes d) 0))"
proof -
  obtain s1 s2 s3 s4 where s: "ip4_bytes s = [s1, s2, s3, s4]"
    using length_ip4_bytes [of s] unfolding length_4_conv by blast
  obtain d1 d2 d3 d4 where d: "ip4_bytes d = [d1, d2, d3, d4]"
    using length_ip4_bytes [of d] unfolding length_4_conv by blast
  have To4: "To4 ip = None \<and> ip4_bytes ip = [0, 0, 0, 0] \<or> To4 ip = Some (ip4_bytes ip)" for ip
    by (auto simp: ip4_bytes_def split: option.split)
  show ?thesis
    using To4 [of s] To4 [of d] s d
    by (auto simp: IPv4_Encode_def zero_IPv4Fields_def slice_mk IPv4_SetTotalLength_def IPv4_SetChecksum_def
        IPv4_SetFlagsFragmentOffset_def overwrite_def PutUint16_def in_order_def be16_def ipv4_header_def
        zeros_numeral zeros_Suc)
qed

lemma encode_udp:
  "UDP_Encode (mk_slice (zeros 8)) \<lparr>SrcPort = sp, DstPort = dp, UDP_len = l, UDP_sum = c\<rparr> =
    Returns (mk_slice (udp_header sp dp l c))"
  by (simp add: UDP_Encode_def slice_mk overwrite_def PutUint16_def in_order_def be16_def udp_header_def
      zeros_numeral zeros_Suc)

lemma be16_join: "push_bit 8 (ucast (ucast (drop_bit 8 v) :: byte)) OR ucast (ucast v :: byte) = v" for v :: u16
  using word_of_be_be16 [of v] by (simp add: be16_def)

lemma length_be16 [simp]: "length (be16 v) = 2"
  by (simp add: be16_def)

lemma length_headers [simp]:
  "length s = 4 \<Longrightarrow> length d = 4 \<Longrightarrow> length (ipv4_header tlen s d c) = 20"
  "length (udp_header sp dp l c') = 8"
  by (simp_all add: ipv4_header_def udp_header_def)

lemma set_ipv4_checksum:
  "length s = 4 \<Longrightarrow> length d = 4 \<Longrightarrow>
    IPv4_SetChecksum (mk_slice (ipv4_header tlen s d c)) v = Returns (mk_slice (ipv4_header tlen s d v))"
  by (simp add: IPv4_SetChecksum_def slice_mk)
    (simp add: overwrite_def PutUint16_def in_order_def be16_def ipv4_header_def)

lemma set_udp_checksum:
  "UDP_SetChecksum (mk_slice (udp_header sp dp l c)) v = Returns (mk_slice (udp_header sp dp l v))"
  by (simp add: UDP_SetChecksum_def slice_mk)
    (simp add: overwrite_def PutUint16_def in_order_def be16_def udp_header_def)

lemma ipv4_header_fields:
  assumes "length s = 4" and "length d = 4"
  shows "IPv4_HeaderLength (mk_slice (ipv4_header tlen s d c @ ys)) = Returns 20"
    and "IPv4_TransportProtocol (mk_slice (ipv4_header tlen s d c @ ys)) = Returns 17"
    and "IPv4_TotalLength (mk_slice (ipv4_header tlen s d c @ ys)) = Returns tlen"
    and "IPv4_SourceAddress (mk_slice (ipv4_header tlen s d c @ ys)) = Returns (Some s)"
    and "IPv4_DestinationAddress (mk_slice (ipv4_header tlen s d c @ ys)) = Returns (Some d)"
  using assms
  by (simp_all add: IPv4_HeaderLength_def IPv4_TransportProtocol_def IPv4_Protocol_def IPv4_TotalLength_def
      IPv4_SourceAddress_def IPv4_DestinationAddress_def slice_mk)
    (simp_all add: ipv4_header_def be16_def Uint16_of_def in_order_def elems_def be16_join)

lemma udp_header_fields:
  "UDP_SourcePort (mk_slice (udp_header sp dp l c @ ys)) = Returns sp"
  "UDP_DestinationPort (mk_slice (udp_header sp dp l c @ ys)) = Returns dp"
  "UDP_Length (mk_slice (udp_header sp dp l c @ ys)) = Returns l"
  by (simp_all add: UDP_SourcePort_def UDP_DestinationPort_def UDP_Length_def slice_mk)
    (simp_all add: udp_header_def be16_def Uint16_of_def in_order_def be16_join)

lemmas header_fields = ipv4_header_fields [where ys = "[]", simplified] udp_header_fields [where ys = "[]", simplified]

text \<open>The checksums \<open>udp4pkt\<close> stores.\<close>

definition ipv4_sum :: "u16 \<Rightarrow> byte list \<Rightarrow> byte list \<Rightarrow> u16" where
  "ipv4_sum tlen s d = NOT (Checksum (ipv4_header tlen s d 0) 0)"

definition udp_sum :: "net_IP \<Rightarrow> net_IP \<Rightarrow> u16 \<Rightarrow> u16 \<Rightarrow> u16 \<Rightarrow> byte list \<Rightarrow> u16" where
  "udp_sum s d sp dp l packet = NOT (Checksum (udp_header sp dp l 0)
     (Checksum (be16 l) (Checksum packet (PseudoHeaderChecksum 17 (To4 s) (To4 d)))))"

lemma udp4pkt_eq:
  "udp4pkt packet (d, dp) (Some (s, sp)) =
    (let tlen = of_nat (28 + length packet); ulen = of_nat (8 + length packet) in
     Returns (ipv4_header tlen (ip4_bytes s) (ip4_bytes d) (ipv4_sum tlen (ip4_bytes s) (ip4_bytes d)) @
       udp_header (of_nat sp) (of_nat dp) ulen (udp_sum s d (of_nat sp) (of_nat dp) ulen packet) @ packet))"
  by (simp add: udp4pkt_def Let_def encode_ipv4 encode_udp IPv4_CalculateChecksum_def header_fields slice_mk
      set_ipv4_checksum set_udp_checksum UDP_CalculateChecksum_def elems_def ipv4_sum_def udp_sum_def
      fill_def WriteN_def NewBigEndianBuffer_eq write_simps go_copy_exact PutUint16_def in_order_def)

section \<open>The checksums verify\<close>

lemma unat_NOT16: "unat (NOT w) = 65535 - unat w" for w :: u16
proof -
  have "NOT w = - 1 - w" by (simp add: not_eq_complement)
  then show ?thesis by (simp add: unat_sub unsigned_minus_1_eq_mask mask_eq_exp_minus_1)
qed

lemma words_sum_be16 [simp]: "words_sum (be16 v) = unat v"
proof -
  have "unat v div 256 < 256" using unat_u16_less [of v] by simp
  then show ?thesis
    by (simp add: be16_def unsigned_ucast_eq unat_drop_bit_div take_bit_nat_def)
qed

lemma words_sum_headers:
  "length s = 4 \<Longrightarrow> length d = 4 \<Longrightarrow>
    words_sum (ipv4_header tlen s d c) = words_sum (ipv4_header tlen s d 0) + unat c"
  "words_sum (udp_header sp dp l c) = words_sum (udp_header sp dp l 0) + unat c"
  by (simp_all add: ipv4_header_def udp_header_def words_sum_append)

lemma sum_all_ones: "unat w = 65535 \<Longrightarrow> w = 65535" for w :: u16
  by (simp add: word_unat_eq_iff)

lemma ipv4_sum_verifies:
  assumes "length s = 4" and "length d = 4"
  shows "Checksum (ipv4_header tlen s d (ipv4_sum tlen s d)) 0 = 65535"
proof (rule sum_all_ones)
  let ?n = "words_sum (ipv4_header tlen s d 0)"
  have "unat (ipv4_sum tlen s d) = 65535 - ones_sum ?n"
    using assms by (simp add: ipv4_sum_def unat_NOT16 unat_Checksum)
  then show "unat (Checksum (ipv4_header tlen s d (ipv4_sum tlen s d)) 0) = 65535"
    using assms by (simp add: unat_Checksum words_sum_headers(1) [of _ _ _ "ipv4_sum tlen s d"] ones_sum_complement)
qed

text \<open>The bytes over which a receiver checks the UDP checksum (RFC 768).\<close>

definition udp_checked :: "byte list \<Rightarrow> byte list \<Rightarrow> u16 \<Rightarrow> byte list \<Rightarrow> byte list" where
  "udp_checked s d l udp = s @ d @ [0, 17] @ be16 l @ udp"

lemma words_sum_bytes_of_To4: "words_sum (bytes_of (To4 ip)) = words_sum (ip4_bytes ip)"
  by (simp add: ip4_bytes_def split: option.split)

lemma length_bytes_of_To4: "length (bytes_of (To4 ip)) \<le> 4"
  using To4_length [of ip] by (cases "To4 ip") auto

lemma words_sum_proto: "words_sum (0 # 17 # buf) = 17 + words_sum buf"
  by simp

lemma unat_PseudoHeaderChecksum:
  "unat (PseudoHeaderChecksum 17 (To4 s) (To4 d)) = ones_sum (words_sum (ip4_bytes s) + words_sum (ip4_bytes d) + 17)"
proof -
  have short: "length (bytes_of (To4 ip)) \<le> 131068" for ip
    using length_bytes_of_To4 [of ip] by simp
  let ?x = "Checksum (bytes_of (To4 d)) (Checksum (bytes_of (To4 s)) 0)"
  have x: "unat ?x = ones_sum (words_sum (ip4_bytes s) + words_sum (ip4_bytes d))"
    by (simp add: unat_Checksum short words_sum_bytes_of_To4 add.commute)
  have "PseudoHeaderChecksum 17 (To4 s) (To4 d) = Checksum [0, 17] ?x"
    by (simp add: PseudoHeaderChecksum_def)
  then have "unat (PseudoHeaderChecksum 17 (To4 s) (To4 d)) = ones_sum (words_sum [0, 17] + unat ?x)"
    by (simp only: unat_Checksum list.size)
  also have "words_sum [0, 17] = 17" by simp
  finally show ?thesis unfolding x ones_sum_add by (simp only: add.commute)
qed

lemma udp_sum_verifies:
  assumes "length packet \<le> 65507"
  shows "Checksum (udp_checked (ip4_bytes s) (ip4_bytes d) l
    (udp_header sp dp l (udp_sum s d sp dp l packet) @ packet)) 0 = 65535"
proof (rule sum_all_ones)
  let ?n = "words_sum (ip4_bytes s) + words_sum (ip4_bytes d) + 17 + unat l + words_sum (udp_header sp dp l 0)
    + words_sum packet"
  have "unat (udp_sum s d sp dp l packet) = 65535 - ones_sum ?n"
    using assms by (simp add: udp_sum_def unat_NOT16 unat_Checksum unat_PseudoHeaderChecksum ac_simps)
  then show "unat (Checksum (udp_checked (ip4_bytes s) (ip4_bytes d) l
      (udp_header sp dp l (udp_sum s d sp dp l packet) @ packet)) 0) = 65535"
    using assms ones_sum_complement [of ?n]
    by (simp add: udp_checked_def unat_Checksum words_sum_append
        words_sum_headers(2) [of _ _ _ "udp_sum s d sp dp l packet"] words_sum_proto ac_simps
        del: words_sum.simps(1))
qed

section \<open>Valid packets\<close>

text \<open>
  The elements of a slice that \<open>IsValid\<close> accepts for its own length, and what it establishes: both
  lengths are in bounds.
\<close>

lemma IsValid_eq:
  assumes "IPv4_HeaderLength b = Returns h" and "IPv4_TotalLength b = Returns t"
  shows "IPv4_IsValid b (int n) = Returns (20 \<le> slen b \<and> unat h \<le> unat t \<and> unat t \<le> n)"
  using assms by (simp only: IPv4_IsValid_def Let_def obind.simps of_nat_less_iff IPv4MinimumSize_def) auto

lemma IsValid_lengths:
  assumes "IPv4_IsValid b (int (slen b)) = Returns True"
  obtains h t where "IPv4_HeaderLength b = Returns h" and "IPv4_TotalLength b = Returns t"
    and "unat h \<le> unat t" and "unat t \<le> slen b" and "20 \<le> slen b"
proof -
  have len: "20 \<le> slen b" using assms by (auto simp: IPv4_IsValid_def split: if_splits)
  with assms obtain h t where "IPv4_HeaderLength b = Returns h" "IPv4_TotalLength b = Returns t"
    by (auto simp: IPv4_IsValid_def outcome_simps)
  with assms that len show ?thesis by (simp add: IsValid_eq)
qed

lemma unat_payload_length:
  fixes t :: u16 and h :: byte
  assumes "unat h \<le> unat t"
  shows "unat (t - ucast h) = unat t - unat h"
proof -
  have "unat (ucast h :: u16) = unat h"
    using unat_byte_less [of h] by (simp add: unsigned_ucast_eq take_bit_nat_eq_self)
  with assms show ?thesis by (simp add: unat_sub word_le_nat_alt)
qed

lemma length_20_conv:
  "20 \<le> length bs \<Longrightarrow> \<exists>a0 a1 a2 a3 a4 a5 a6 a7 a8 a9 b0 b1 b2 b3 b4 b5 b6 b7 b8 b9 rest.
    bs = [a0, a1, a2, a3, a4, a5, a6, a7, a8, a9, b0, b1, b2, b3, b4, b5, b6, b7, b8, b9] @ rest"
  by (auto simp: numeral_eq_Suc Suc_le_length_iff)

section \<open>Properties\<close>

text \<open>
  C30. The checksum is that of RFC 1071: for every buffer of up to 131068 bytes, about twice the largest IPv4 packet,
  and every initial sum, it is the ones' complement sum of the initial sum and the 16-bit
  big-endian words of the buffer, an odd last byte padded with zero.
\<close>

theorem Checksum_rfc1071:
  assumes "length buf \<le> 131068"
  shows "unat (Checksum buf initial) = ones_sum (words_sum buf + unat initial)"
  using assms by (rule unat_Checksum)

theorem Checksum_rfc1071_witness:
  "Checksum [0, 1, 242, 3, 244, 245, 246, 247] 0 = 56818"
proof -
  have "unat (Checksum [0, 1, 242, 3, 244, 245, 246, 247] 0) = 56818"
    using Checksum_rfc1071 [of "[0, 1, 242, 3, 244, 245, 246, 247]" 0] by (simp add: ones_sum_def)
  then show ?thesis by (simp add: word_unat_eq_iff)
qed

text \<open>
  C29. \<open>udp4pkt\<close> builds a correct IPv4 packet around every payload that fits into one: its headers
  say what they should (20 bytes of header, the total length, protocol 17, the two addresses, the
  two ports, the UDP length), \<open>IsValid\<close> accepts it, the payload follows, and a receiver that
  verifies the header checksum and the UDP checksum over the pseudo-header obtains all ones.
\<close>

theorem udp4pkt_wellformed:
  assumes "length packet \<le> 65507"
  shows "\<exists>p udp. udp4pkt packet (d, dp) (Some (s, sp)) = Returns p \<and> length p = 28 + length packet \<and>
    IPv4_HeaderLength (mk_slice p) = Returns 20 \<and>
    IPv4_TotalLength (mk_slice p) = Returns (of_nat (length p)) \<and>
    IPv4_TransportProtocol (mk_slice p) = Returns UDPProtocolNumber \<and>
    IPv4_SourceAddress (mk_slice p) = Returns (Some (ip4_bytes s)) \<and>
    IPv4_DestinationAddress (mk_slice p) = Returns (Some (ip4_bytes d)) \<and>
    IPv4_IsValid (mk_slice p) (int (length p)) = Returns True \<and>
    Checksum (take 20 p) 0 = 65535 \<and>
    udp = drop 20 p \<and> drop 8 udp = packet \<and>
    UDP_SourcePort (mk_slice udp) = Returns (of_nat sp) \<and>
    UDP_DestinationPort (mk_slice udp) = Returns (of_nat dp) \<and>
    UDP_Length (mk_slice udp) = Returns (of_nat (length udp)) \<and>
    Checksum (udp_checked (ip4_bytes s) (ip4_bytes d) (of_nat (length udp)) udp) 0 = 65535"
proof -
  let ?tlen = "of_nat (28 + length packet) :: u16" and ?ulen = "of_nat (8 + length packet) :: u16"
  let ?s = "ip4_bytes s" and ?d = "ip4_bytes d"
  define ih where "ih = ipv4_header ?tlen ?s ?d (ipv4_sum ?tlen ?s ?d)"
  define udp where "udp = udp_header (of_nat sp) (of_nat dp) ?ulen
    (udp_sum s d (of_nat sp) (of_nat dp) ?ulen packet) @ packet"
  have len: "length ih = 20" "length udp = 8 + length packet" by (simp_all add: ih_def udp_def)
  have f: "IPv4_HeaderLength (mk_slice (ih @ udp)) = Returns 20" "IPv4_TotalLength (mk_slice (ih @ udp)) = Returns ?tlen"
    "IPv4_TransportProtocol (mk_slice (ih @ udp)) = Returns 17"
    "IPv4_SourceAddress (mk_slice (ih @ udp)) = Returns (Some ?s)"
    "IPv4_DestinationAddress (mk_slice (ih @ udp)) = Returns (Some ?d)"
    unfolding ih_def by (simp_all only: ipv4_header_fields length_ip4_bytes)
  have u: "UDP_SourcePort (mk_slice udp) = Returns (of_nat sp)" "UDP_DestinationPort (mk_slice udp) = Returns (of_nat dp)"
    "UDP_Length (mk_slice udp) = Returns ?ulen" "drop 8 udp = packet"
    unfolding udp_def by (simp_all only: udp_header_fields) simp
  have t: "unat ?tlen = 28 + length packet"
    using assms by (simp add: unat_of_nat del: of_nat_add)
  have valid: "IPv4_IsValid (mk_slice (ih @ udp)) (int (length (ih @ udp))) = Returns True"
    using len t by (simp add: IsValid_eq [OF f(1,2)] del: of_nat_add)
  have c1: "Checksum ih 0 = 65535" unfolding ih_def by (rule ipv4_sum_verifies) simp_all
  have c2: "Checksum (udp_checked ?s ?d ?ulen udp) 0 = 65535"
    unfolding udp_def by (rule udp_sum_verifies [OF assms])
  have "udp4pkt packet (d, dp) (Some (s, sp)) = Returns (ih @ udp)"
    unfolding udp4pkt_eq Let_def ih_def udp_def by simp
  with f u valid c1 c2 len show ?thesis
    by (intro exI [of _ "ih @ udp"] exI [of _ udp]) (simp del: of_nat_add)
qed

theorem udp4pkt_wellformed_witness:
  "\<exists>p. udp4pkt [1, 2, 3] (IPv4bcast, 67) (Some (None, 68)) = Returns p \<and>
    Checksum (take 20 p) 0 = 65535 \<and> drop 28 p = [1, 2, 3]"
  using udp4pkt_wellformed [of "[1, 2, 3]" IPv4bcast 67 None 68] by (auto simp: drop_drop)

text \<open>The fields of a header that is complete, at their offsets.\<close>

definition word_at :: "nat \<Rightarrow> byte list \<Rightarrow> u16" where
  "word_at i bs = Uint16_of BigEndian (take 2 (drop i bs))"

lemma accessor_values:
  assumes "wf_slice b" and "20 \<le> slen b"
  shows "IPv4_TOS b = Returns (elems b ! 1, 0)" and "IPv4_ID b = Returns (word_at 4 (elems b))"
    and "IPv4_Flags b = Returns (ucast (drop_bit 13 (word_at 6 (elems b))))"
    and "IPv4_FragmentOffset b = Returns (push_bit 3 (word_at 6 (elems b)))"
    and "IPv4_TTL b = Returns (elems b ! 8)" and "IPv4_Protocol b = Returns (elems b ! 9)"
    and "IPv4_TransportProtocol b = Returns (ucast (elems b ! 9))"
    and "IPv4_Checksum b = Returns (word_at 10 (elems b))"
    and "IPv4_SourceAddress b = Returns (Some (take 4 (drop 12 (elems b))))"
    and "IPv4_DestinationAddress b = Returns (Some (take 4 (drop 16 (elems b))))"
  using assms
  by (simp_all add: wf_slice_def IPv4_TOS_def IPv4_ID_def IPv4_Flags_def IPv4_FragmentOffset_def IPv4_TTL_def
      IPv4_Protocol_def IPv4_TransportProtocol_def IPv4_Checksum_def IPv4_SourceAddress_def IPv4_DestinationAddress_def
      word_at_def elems_def drop_take min_def s_index_def s_from_def s_slice_def s_Uint16_def)




text \<open>
  The accessors read back what \<open>Encode\<close> wrote into a slice of at least 20 bytes: all fields
  unchanged, except that the header length is a multiple of 4 below 64, only three flag bits are
  kept, and the fragment offset loses its last three bits.
\<close>

lemma Encode_decode:
  assumes "20 \<le> slen b" and "wf_slice b"
    and "SrcAddr i = Some s" and "length s = 4" and "DstAddr i = Some d" and "length d = 4"
  shows "\<exists>b'. IPv4_Encode b i = Returns b' \<and> slen b' = slen b \<and>
    IPv4_HeaderLength b' = Returns ((IHL i div 4 AND 15) * 4) \<and> IPv4_TOS b' = Returns (TOS i, 0) \<and>
    IPv4_TotalLength b' = Returns (TotalLength i) \<and> IPv4_ID b' = Returns (ID i) \<and>
    IPv4_Flags b' = Returns (Flags i AND 7) \<and> IPv4_FragmentOffset b' = Returns (FragmentOffset i AND NOT 7) \<and>
    IPv4_TTL b' = Returns (TTL i) \<and> IPv4_Protocol b' = Returns (Protocol i) \<and>
    IPv4_Checksum b' = Returns (Checksum_field i) \<and>
    IPv4_SourceAddress b' = Returns (Some s) \<and> IPv4_DestinationAddress b' = Returns (Some d)"
proof -
  obtain bs n where b: "b = \<lparr>arr = bs, slen = n\<rparr>" by (cases b)
  have n: "20 \<le> n" "n \<le> length bs" using assms(1,2) b by (simp_all add: wf_slice_def)
  then have "20 \<le> length bs" by simp
  from length_20_conv [OF this] obtain a0 a1 a2 a3 a4 a5 a6 a7 a8 a9 b0 b1 b2 b3 b4 b5 b6 b7 b8 b9 rest where
    bs: "bs = [a0, a1, a2, a3, a4, a5, a6, a7, a8, a9, b0, b1, b2, b3, b4, b5, b6, b7, b8, b9] @ rest"
    by (elim exE) (rule that)
  obtain s1 s2 s3 s4 where s: "s = [s1, s2, s3, s4]" using assms(4) unfolding length_4_conv by blast
  obtain d1 d2 d3 d4 where d: "d = [d1, d2, d3, d4]" using assms(6) unfolding length_4_conv by blast
  let ?ff = "push_bit 13 (ucast (Flags i)) OR drop_bit 3 (FragmentOffset i) :: u16"
  define arr' where "arr' = [push_bit 4 4 OR ((IHL i div 4) AND 15), TOS i] @ be16 (TotalLength i) @ be16 (ID i)
    @ be16 ?ff @ [TTL i, Protocol i] @ be16 (Checksum_field i) @ s @ d @ rest"
  have len: "n \<le> length arr'" using n(2) bs s d by (simp add: arr'_def be16_def)
  have enc: "IPv4_Encode b i = Returns \<lparr>arr = arr', slen = n\<rparr>"
    using n assms(3,5)
    by (simp add: b bs s d IPv4_Encode_def slice_at IPv4_SetTotalLength_def IPv4_SetChecksum_def
        IPv4_SetFlagsFragmentOffset_def overwrite_def PutUint16_def in_order_def be16_def arr'_def)
  have u16: "Uint16_of BigEndian (be16 v) = v" for v by (simp add: Uint16_of_def in_order_def word_of_be_be16)
  have bytes: "arr' ! 0 = push_bit 4 4 OR ((IHL i div 4) AND 15)" "arr' ! 1 = TOS i" "arr' ! 8 = TTL i" "arr' ! 9 = Protocol i"
    by (simp_all add: arr'_def be16_def)
  have words: "take 2 (drop 2 arr') = be16 (TotalLength i)" "take 2 (drop 4 arr') = be16 (ID i)"
    "take 2 (drop 6 arr') = be16 ?ff" "take 2 (drop 10 arr') = be16 (Checksum_field i)"
    "take 4 (drop 12 arr') = s" "take 4 (drop 16 arr') = d"
    by (simp_all add: arr'_def be16_def s d)
  have ihl: "(push_bit 4 4 OR (x AND 15)) AND 15 = x AND (15 :: byte)" for x
    by (simp add: bit.conj_disj_distrib2 and.assoc)
  have seven: "(7 :: byte) = mask 3" "(7 :: u16) = mask 3" by (simp_all add: mask_eq_exp_minus_1)
  have fl: "ucast (drop_bit 13 ?ff) = Flags i AND (7 :: byte)"
    unfolding seven by (rule bit_word_eqI) (auto simp: bit_simps)
  have fo: "push_bit 3 ?ff = FragmentOffset i AND NOT 7"
    unfolding seven by (rule bit_word_eqI) (auto simp: bit_simps)
  have "slen \<lparr>arr = arr', slen = n\<rparr> = slen b" by (simp add: b)
  with enc show ?thesis
    by (intro exI [of _ "\<lparr>arr = arr', slen = n\<rparr>"])
      (use n(1) len in \<open>simp add: IPv4_HeaderLength_def IPv4_TOS_def IPv4_TotalLength_def IPv4_ID_def IPv4_Flags_def
        IPv4_FragmentOffset_def IPv4_TTL_def IPv4_Protocol_def IPv4_Checksum_def IPv4_SourceAddress_def
        IPv4_DestinationAddress_def slice_at elems_def bytes [simplified] words u16 ihl [simplified]
        fl [simplified] fo [simplified]\<close>)
qed

end
