(* ===== verification/Conn.thy ===== *)
theory Conn
  imports IPv4Hdr
begin

text \<open>
  \<^verbatim>\<open>dhcp4client/conn_linux.go\<close>: a UDP connection on top of a raw socket. The raw socket is the
  environment: each input is the result of one of its \<open>ReadFrom\<close> calls, which puts the packet at
  the start of the buffer it is given and leaves the rest of the buffer alone. \<^theory_text>\<open>ConnOpen\<close>
  models the constructors that open the sockets.
\<close>

section \<open>Operations\<close>

definition BroadcastMac :: "byte list" where
  "BroadcastMac = [255, 255, 255, 255, 255, 255]"

text \<open>
  The raw connection that is embedded, of any type, and the bound address; a nil pointer is \<open>None\<close>.
\<close>

record 'r UDPPacketConn =
  PacketConn :: 'r
  boundAddr :: "udp_addr option"

definition NewBroadcastUDPConn :: "'r \<Rightarrow> udp_addr option \<Rightarrow> 'r UDPPacketConn" where
  "NewBroadcastUDPConn rawPacketConn bound = \<lparr>PacketConn = rawPacketConn, boundAddr = bound\<rparr>"

definition udpMatch :: "udp_addr \<Rightarrow> udp_addr option \<Rightarrow> bool" where
  "udpMatch addr bound = (case bound of
     None \<Rightarrow> True
   | Some (bound_IP, bound_Port) \<Rightarrow>
       if bound_IP \<noteq> None \<and> \<not> IP_Equal bound_IP (fst addr) then False
       else bound_Port = snd addr)"

text \<open>
  The slice \<open>Consume\<close> returns lies in the array under the lexer, at the position it has reached,
  with the rest of the array as its capacity. A failed \<open>Consume\<close> returns the nil slice.
\<close>

definition consume_slice :: "byte list \<Rightarrow> nat \<Rightarrow> slice reader" where
  "consume_slice a n = do {
     l \<leftarrow> State_Monad.get;
     v \<leftarrow> Consume n;
     State_Monad.return (case v of
       None \<Rightarrow> mk_slice []
     | Some bs \<Rightarrow> \<lparr>arr = drop (byteCount l) a, slen = length bs\<rparr>) }"

text \<open>
  One iteration of \<open>ReadFrom\<close> for a packet from the raw socket: \<open>None\<close> to continue, or the new
  contents of \<open>b\<close>, the number of bytes and the address it returns.
\<close>

definition read_raw ::
  "'r UDPPacketConn \<Rightarrow> byte list \<Rightarrow> byte list \<Rightarrow> (byte list \<times> nat \<times> udp_addr) option outcome" where
  "read_raw upc b raw =
    (let ipLen = IPv4MaximumHeaderSize;
         udpLen = UDPMinimumSize;
         buffer = zeros (ipLen + udpLen + length b);
         a = go_copy buffer raw;
         n = go_copied buffer raw;
         pkt = \<lparr>arr = a, slen = n\<rparr>;
         buf = NewBigEndianBuffer (elems pkt) in
     obind (IPv4_HeaderLength pkt) (\<lambda>h.
     let (ipHdr, buf) = run_state (consume_slice a (unat h)) buf in
     obind (IPv4_TransportProtocol ipHdr) (\<lambda>proto.
     if proto \<noteq> UDPProtocolNumber then Returns None
     else let (udpHdr, buf) = run_state (consume_slice a udpLen) buf in
       obind (IPv4_DestinationAddress ipHdr) (\<lambda>ip.
       obind (UDP_DestinationPort udpHdr) (\<lambda>port.
       let addr = (ip, unat port) in
       if \<not> udpMatch addr (boundAddr upc) then Returns None
       else let (rest, buf) = run_state ReadAll buf in
         Returns (Some (go_copy b (bytes_of rest), go_copied b (bytes_of rest), addr)))))))"

datatype raw_input = RawError go_error | RawPacket "byte list"

text \<open>
  \<open>ReadFrom\<close> on the packets that arrive: \<open>None\<close> while it waits for more, else its result and the
  packets it has not touched.
\<close>

type_synonym read_result = "go_error + (byte list \<times> nat \<times> udp_addr)"

fun ReadFrom :: "'r UDPPacketConn \<Rightarrow> byte list \<Rightarrow> raw_input list \<Rightarrow> (read_result \<times> raw_input list) option outcome" where
  "ReadFrom upc b [] = Returns None"
| "ReadFrom upc b (RawError e # rest) = Returns (Some (Inl e, rest))"
| "ReadFrom upc b (RawPacket raw # rest) = obind (read_raw upc b raw) (\<lambda>r. case r of
     None \<Rightarrow> ReadFrom upc b rest
   | Some x \<Rightarrow> Returns (Some (Inr x, rest)))"

text \<open>
  \<open>WriteTo\<close>: the frame and hardware address given to the raw socket, if any, and the returned
  count and error; \<open>wres\<close> is the answer of the raw socket.
\<close>

definition WriteTo :: "nat \<times> go_error option \<Rightarrow> 'r UDPPacketConn \<Rightarrow> byte list \<Rightarrow> net_Addr \<Rightarrow>
    ((byte list \<times> byte list) option \<times> nat \<times> go_error option) outcome" where
  "WriteTo wres upc b addr = (case addr of
     OtherAddr \<Rightarrow> Returns (None, 0, Some MustSupplyUDPAddr)
   | UDPAddr ip port \<Rightarrow> obind (udp4pkt b (ip, port) (boundAddr upc)) (\<lambda>packet.
       Returns (Some (packet, BroadcastMac), wres)))"

section \<open>What one packet does\<close>

text \<open>The part of a raw packet that fits the buffer, and the header length it announces.\<close>

definition fitting :: "byte list \<Rightarrow> byte list \<Rightarrow> byte list" where
  "fitting b raw = take (68 + length b) raw"

definition announced :: "byte list \<Rightarrow> nat" where
  "announced p = unat ((p ! 0 AND 15) * 4)"

text \<open>
  The packets the code reads without leaving the bounds of a slice: not empty, the announced
  header is complete and reaches to the protocol field, and if that says UDP, the UDP header
  is complete.
\<close>

definition readable :: "byte list \<Rightarrow> bool" where
  "readable p \<longleftrightarrow> p \<noteq> [] \<and> announced p \<le> length p \<and> 10 \<le> announced p \<and>
     (p ! 9 = 17 \<longrightarrow> announced p + 8 \<le> length p)"

definition dest_of :: "byte list \<Rightarrow> byte list \<Rightarrow> udp_addr" where
  "dest_of b p = (Some (take 4 (drop 16 (p @ zeros (68 + length b - length p)))),
     unat (Uint16_of BigEndian (take 2 (drop (announced p + 2) p))))"

definition payload_of :: "byte list \<Rightarrow> byte list" where
  "payload_of p = drop (announced p + 8) p"

lemma length_fitting: "length (fitting b raw) \<le> 68 + length b"
  by (simp add: fitting_def)

lemma go_copy_fitting:
  "go_copy (zeros (68 + length b)) raw = fitting b raw @ zeros (68 + length b - length (fitting b raw))"
  by (simp add: go_copy_def fitting_def zeros_def min_def)

lemma go_copied_fitting: "go_copied (zeros (68 + length b)) raw = length (fitting b raw)"
  by (simp add: go_copied_def fitting_def)

lemma run_consume_slice:
  "run_state (consume_slice a n) l =
    (if n \<le> length (data l) then (\<lparr>arr = drop (byteCount l) a, slen = n\<rparr>, advance n l)
     else (mk_slice [], setError (BufferTooShort (byteCount l) (length (data l)) n) l))"
  by (simp add: consume_slice_def run_Consume)

lemma run_ReadAll: "run_state ReadAll l = (Some (data l), advance (length (data l)) l)"
  by (simp add: ReadAll_def CopyN_def run_Consume Len_def go_copied_def go_copy_exact)

lemma announced_index:
  "p \<noteq> [] \<Longrightarrow> s_index \<lparr>arr = p @ z, slen = length p\<rparr> 0 = Returns (p ! 0)"
  "p = [] \<Longrightarrow> s_index \<lparr>arr = p @ z, slen = length p\<rparr> 0 = Panics"
  by (simp_all add: s_index_def nth_append)

lemma read_raw_eq:
  fixes b raw upc
  defines "p \<equiv> fitting b raw"
  shows "read_raw upc b raw =
    (if \<not> readable p then Panics
     else if p ! 9 \<noteq> 17 \<or> \<not> udpMatch (dest_of b p) (boundAddr upc) then Returns None
     else Returns (Some (go_copy b (payload_of p), go_copied b (payload_of p), dest_of b p)))"
proof -
  let ?z = "zeros (68 + length b - length p)"
  let ?hl = "announced p"
  have lenz: "length (p @ ?z) = 68 + length b"
    using length_fitting [of b raw] by (simp add: p_def)
  have ucast17: "(ucast x :: u32) = 17 \<longleftrightarrow> x = 17" for x :: byte
    using unat_byte_less [of x] by (simp add: word_unat_eq_iff unsigned_ucast_eq take_bit_nat_eq_self)
  define after where "after h = (let (ipHdr, buf) = run_state (consume_slice (p @ ?z) (unat h)) (NewBigEndianBuffer p) in
     obind (IPv4_TransportProtocol ipHdr) (\<lambda>proto.
     if proto \<noteq> UDPProtocolNumber then Returns None
     else let (udpHdr, buf) = run_state (consume_slice (p @ ?z) 8) buf in
       obind (IPv4_DestinationAddress ipHdr) (\<lambda>ip.
       obind (UDP_DestinationPort udpHdr) (\<lambda>port.
       let addr = (ip, unat port) in
       if \<not> udpMatch addr (boundAddr upc) then Returns None
       else let (rest, buf) = run_state ReadAll buf in
         Returns (Some (go_copy b (bytes_of rest), go_copied b (bytes_of rest), addr))))))" for h :: byte
  have sz: "IPv4MaximumHeaderSize + UDPMinimumSize + length b = 68 + length b" by simp
  have "elems \<lparr>arr = p @ ?z, slen = length p\<rparr> = p" by (simp add: elems_def)
  then have first: "read_raw upc b raw = obind (IPv4_HeaderLength \<lparr>arr = p @ ?z, slen = length p\<rparr>) after"
    unfolding read_raw_def after_def Let_def sz go_copy_fitting go_copied_fitting p_def [symmetric]
    by (simp only: UDPMinimumSize_def)
  have hl: "read_raw upc b raw = after ((p ! 0 AND 15) * 4)" if "p \<noteq> []"
    using that by (simp add: first IPv4_HeaderLength_def announced_index)
  note start = after_def readable_def announced_def [symmetric] run_consume_slice NewBigEndianBuffer_eq
    IPv4_TransportProtocol_def IPv4_Protocol_def
  consider (empty) "p = []" | (short) "p \<noteq> []" "length p < ?hl" | (tiny) "p \<noteq> []" "?hl \<le> length p" "?hl < 10"
    | (ok) "p \<noteq> []" "?hl \<le> length p" "10 \<le> ?hl" by linarith
  then show ?thesis
  proof cases
    case empty
    then show ?thesis by (simp add: first IPv4_HeaderLength_def s_index_def readable_def)
  next
    case short
    then show ?thesis by (simp add: hl start s_index_def)
  next
    case tiny
    then have "s_index \<lparr>arr = p @ ?z, slen = ?hl\<rparr> 9 = Panics" by (simp add: s_index_def)
    with tiny show ?thesis by (simp add: hl start)
  next
    case ok
    then have proto: "s_index \<lparr>arr = p @ ?z, slen = ?hl\<rparr> 9 = Returns (p ! 9)"
      by (simp add: s_index_def nth_append)
    show ?thesis
    proof (cases "p ! 9 = 17")
      case False
      with ok proto show ?thesis by (simp add: hl start ucast17)
    next
      case True
      have ip: "IPv4_DestinationAddress \<lparr>arr = p @ ?z, slen = ?hl\<rparr> = Returns (fst (dest_of b p))"
        using lenz by (simp add: IPv4_DestinationAddress_def s_slice_def elems_def dest_of_def)
      show ?thesis
      proof (cases "?hl + 8 \<le> length p")
        case False
        with ok True ip proto show ?thesis
          by (simp add: hl start UDP_DestinationPort_def s_from_def s_slice_def)
      next
        case udp: True
        then have port: "UDP_DestinationPort \<lparr>arr = drop ?hl (p @ ?z), slen = 8\<rparr> =
            Returns (Uint16_of BigEndian (take 2 (drop (?hl + 2) p)))"
          by (simp add: UDP_DestinationPort_def s_from_def s_slice_def s_Uint16_def add.commute)
        have room: "8 \<le> length p - ?hl" using udp by simp
        have addr: "(fst (dest_of b p), unat (Uint16_of BigEndian (take 2 (drop (?hl + 2) p)))) = dest_of b p"
          by (simp add: dest_of_def)
        from ok True udp ip proto port room show ?thesis
          by (simp add: hl start run_ReadAll Let_def addr [simplified] payload_of_def [symmetric] del: drop_append)
      qed
    qed
  qed
qed

section \<open>What a written frame looks like to a reader\<close>

lemma frame_fields:
  fixes packet :: "byte list" and tlen c sp dp l c' :: u16
  assumes "length s = 4" and "length d = 4"
  defines "p \<equiv> ipv4_header tlen s d c @ udp_header sp dp l c' @ packet"
  shows "announced p = 20" and "p ! 9 = 17" and "length p = 28 + length packet" and "readable p"
    and "dest_of b p = (Some d, unat dp)" and "payload_of p = packet"
proof -
  show len: "length p = 28 + length packet" using assms by (simp add: p_def)
  have fields: "p ! 0 = 69" "p ! 9 = 17" "take 4 (drop 16 p) = d" "drop 20 p = udp_header sp dp l c' @ packet"
    using assms by (simp_all add: p_def ipv4_header_def be16_def)
  show ann: "announced p = 20" by (simp add: announced_def fields)
  show "p ! 9 = 17" by (rule fields)
  show "readable p" using len ann by (auto simp: readable_def)
  have "take 2 (drop 22 p) = take 2 (drop 2 (drop 20 p))" by simp
  then have "take 2 (drop 22 p) = be16 dp"
    unfolding fields(4) by (simp add: udp_header_def be16_def)
  then show "dest_of b p = (Some d, unat dp)"
    using fields(3) len by (simp add: dest_of_def ann Uint16_of_def in_order_def word_of_be_be16)
  show "payload_of p = packet"
    unfolding payload_of_def ann using assms(1,2) by (simp add: p_def)
qed

lemma WriteTo_frame:
  assumes "boundAddr sender = Some (s, sp)" and "dp < 65536" and "length packet \<le> length b"
  obtains tlen c l c' where
    "WriteTo wres sender packet (UDPAddr d dp) = Returns (Some (ipv4_header tlen (ip4_bytes s) (ip4_bytes d) c @
      udp_header (of_nat sp) (of_nat dp) l c' @ packet, BroadcastMac), wres)"
    and "\<And>receiver :: 's UDPPacketConn. read_raw receiver b (ipv4_header tlen (ip4_bytes s) (ip4_bytes d) c @
      udp_header (of_nat sp) (of_nat dp) l c' @ packet) =
      Returns (if udpMatch (Some (ip4_bytes d), dp) (boundAddr receiver)
        then Some (packet @ drop (length packet) b, length packet, (Some (ip4_bytes d), dp)) else None)"
proof -
  obtain tlen c l c' where f: "udp4pkt packet (d, dp) (Some (s, sp)) =
      Returns (ipv4_header tlen (ip4_bytes s) (ip4_bytes d) c @ udp_header (of_nat sp) (of_nat dp) l c' @ packet)"
    unfolding udp4pkt_eq Let_def by blast
  let ?f = "ipv4_header tlen (ip4_bytes s) (ip4_bytes d) c @ udp_header (of_nat sp) (of_nat dp) l c' @ packet"
  note ff = frame_fields [OF length_ip4_bytes [of s] length_ip4_bytes [of d],
      where packet = packet and tlen = tlen and c = c and sp = "of_nat sp" and dp = "of_nat dp" and l = l and c' = c']
  have fit: "fitting b ?f = ?f" using ff(3) assms(3) by (simp add: fitting_def)
  have port: "unat (of_nat dp :: u16) = dp" using assms(2) by (simp add: unat_of_nat)
  have "go_copy b packet = packet @ drop (length packet) b" "go_copied b packet = length packet"
    using assms(3) by (simp_all add: go_copy_def go_copied_def)
  then have "read_raw receiver b ?f =
      Returns (if udpMatch (Some (ip4_bytes d), dp) (boundAddr receiver)
        then Some (packet @ drop (length packet) b, length packet, (Some (ip4_bytes d), dp)) else None)" for receiver :: "'s UDPPacketConn"
    by (simp only: read_raw_eq fit ff port) simp
  with f assms(1) that show ?thesis by (simp add: WriteTo_def)
qed

section \<open>Properties\<close>

text \<open>
  C31. What \<open>WriteTo\<close> sends, \<open>ReadFrom\<close> of a connection that the destination matches delivers: the
  first bytes of the caller's buffer are the payload and the count is its length. The address
  returned with it is the destination of the packet.
\<close>

theorem WriteTo_ReadFrom:
  assumes "boundAddr sender = Some src" and "dp < 65536" and "udpMatch (Some (ip4_bytes d), dp) (boundAddr receiver)"
    and "length packet \<le> length b"
  shows "\<exists>frame. WriteTo wres sender packet (UDPAddr d dp) = Returns (Some (frame, BroadcastMac), wres) \<and>
    ReadFrom receiver b (RawPacket frame # rest) =
      Returns (Some (Inr (packet @ drop (length packet) b, length packet, (Some (ip4_bytes d), dp)), rest))"
proof -
  obtain s sp where src: "src = (s, sp)" by (cases src)
  obtain frame where "WriteTo wres sender packet (UDPAddr d dp) = Returns (Some (frame, BroadcastMac), wres)"
    "read_raw receiver b frame = Returns (if udpMatch (Some (ip4_bytes d), dp) (boundAddr receiver)
      then Some (packet @ drop (length packet) b, length packet, (Some (ip4_bytes d), dp)) else None)"
    using WriteTo_frame [OF assms(1) [unfolded src] assms(2,4), of wres d] by blast
  with assms(3) show ?thesis by auto
qed

theorem WriteTo_ReadFrom_witness:
  "\<exists>frame. WriteTo (28, None) (NewBroadcastUDPConn () (Some (None, 67))) [5, 6] (UDPAddr IPv4bcast 68) =
      Returns (Some (frame, BroadcastMac), 28, None) \<and>
    ReadFrom (NewBroadcastUDPConn () (Some (None, 68))) (zeros 3) [RawPacket frame] =
      Returns (Some (Inr ([5, 6, 0], 2, (Some (ip4_bytes IPv4bcast), 68)), []))"
  using WriteTo_ReadFrom [of "NewBroadcastUDPConn () (Some (None, 67))" "(None, 67)" 68 IPv4bcast
      "NewBroadcastUDPConn () (Some (None, 68))" "[5, 6]" "zeros 3" "(28, None)" "[]"]
  by (simp add: NewBroadcastUDPConn_def udpMatch_def zeros_numeral zeros_Suc numeral_2_eq_2 del: ReadFrom.simps)



text \<open>
  C33. Which packets crash the reader: \<open>ReadFrom\<close> panics exactly on an empty packet, on one whose
  announced header is incomplete or too short to hold the protocol field, and on a UDP packet
  without a complete UDP header. The code does not call \<open>IsValid\<close> on what it receives.
\<close>

theorem ReadFrom_panics:
  "ReadFrom upc b [RawPacket raw] = Panics \<longleftrightarrow> \<not> readable (fitting b raw)"
  by (simp add: read_raw_eq)

end
