(* ===== verification/Client.thy ===== *)
theory Client
  imports OptGet Conn
begin

text \<open>
  \<^verbatim>\<open>dhcp4client/client.go\<close>: the DHCP client. The environment of an exchange is what the
  connection, the clock and the consumer of the responses answer: for each attempt the result of
  \<open>WriteTo\<close>, and for each iteration of its read loop whether the context is done, the result of
  \<open>ReadFrom\<close>, and whether the response could be handed over before the context was cancelled.
  The goroutine that runs an exchange communicates with its caller only through the channels
  \<open>out\<close> and \<open>errCh\<close>, which are lists in the model, in the order of the messages; \<^theory_text>\<open>ClientConc\<close> shows that
  every interleaving of the two agrees with this model.
\<close>

section \<open>State\<close>

definition client_maxMessageSize :: nat where "client_maxMessageSize = 1500"
definition ClientPort :: nat where "ClientPort = 68"
definition ServerPort :: nat where "ServerPort = 67"

definition DefaultServers :: udp_addr where "DefaultServers = (IPv4bcast, ServerPort)"

text \<open>
  The attributes of a \<open>netlink.Link\<close> that the client reads. A link is an interface value: \<open>None\<close> is the nil interface, on
  which a call of \<open>Attrs\<close> panics.
\<close>

record Link =
  link_name :: "byte list"
  HardwareAddr :: "byte list"

definition Attrs :: "Link option \<Rightarrow> Link outcome" where
  "Attrs link = (case link of None \<Rightarrow> Panics | Some l \<Rightarrow> Returns l)"

lemma Attrs_simps [simp]: "Attrs None = Panics" "Attrs (Some l) = Returns l"
  by (simp_all add: Attrs_def)

record 'c Client =
  iface :: "Link option"
  conn :: "'c option"
  timeout :: int
  retry :: int

type_synonym 'c ClientOpt = "'c Client \<Rightarrow> go_error + 'c Client"

fun apply_opts :: "'c ClientOpt list \<Rightarrow> 'c Client \<Rightarrow> go_error + 'c Client" where
  "apply_opts [] c = Inr c"
| "apply_opts (opt # opts) c = (case opt c of Inl e \<Rightarrow> Inl e | Inr c \<Rightarrow> apply_opts opts c)"

text \<open>Opening the default connection is the parameter \<open>open_conn\<close>: \<^theory_text>\<open>ConnOpen\<close> supplies \<open>NewPacketUDPConn\<close> for it.\<close>

definition Client_New ::
  "(byte list \<Rightarrow> nat \<Rightarrow> go_error + 'c) \<Rightarrow> Link option \<Rightarrow> 'c ClientOpt list \<Rightarrow>
    (go_error + 'c Client) outcome" where
  "Client_New open_conn link opts =
    (let c = \<lparr>iface = link, conn = None, timeout = 10 * 1000000000, retry = 3\<rparr> in
     case apply_opts opts c of
       Inl e \<Rightarrow> Returns (Inl e)
     | Inr c \<Rightarrow> (if conn c = None
         then obind (Attrs link) (\<lambda>attrs. case open_conn (link_name attrs) ClientPort of
             Inl e \<Rightarrow> Returns (Inl e)
           | Inr x \<Rightarrow> Returns (Inr (c\<lparr>conn := Some x\<rparr>)))
         else Returns (Inr c)))"

definition WithTimeout :: "int \<Rightarrow> 'c ClientOpt" where
  "WithTimeout d = (\<lambda>c. Inr (c\<lparr>timeout := d\<rparr>))"

definition WithRetry :: "int \<Rightarrow> 'c ClientOpt" where
  "WithRetry r = (\<lambda>c. Inr (c\<lparr>retry := r\<rparr>))"

definition WithConn :: "'c \<Rightarrow> 'c ClientOpt" where
  "WithConn x = (\<lambda>c. Inr (c\<lparr>conn := Some x\<rparr>))"

text \<open>\<open>cres\<close> is the answer of the \<open>Close\<close> of the connection.\<close>

definition Close :: "go_error option \<Rightarrow> 'c Client \<Rightarrow> go_error option" where
  "Close cres c = (if conn c \<noteq> None then cres else None)"

section \<open>Packets\<close>

definition go_index :: "'a list \<Rightarrow> int \<Rightarrow> 'a outcome" where
  "go_index xs i = (if 0 \<le> i \<and> i < int (length xs) then Returns (xs ! nat i) else Panics)"

definition macToID :: "byte list \<Rightarrow> byte list outcome" where
  "macToID mac = (let n = int (length mac) in
     obind (go_index mac (n - 1)) (\<lambda>a.
     obind (go_index mac (n - 2)) (\<lambda>b.
     obind (go_index mac (n - 3)) (\<lambda>c.
     obind (go_index mac (n - 4)) (\<lambda>d. Returns [a, b, c, d])))))"

text \<open>The errors of \<open>Options.Add\<close> are dropped.\<close>

definition DiscoverPacket :: "'c Client \<Rightarrow> Packet outcome" where
  "DiscoverPacket c =
    (let packet = NewPacket BootRequest in
     obind (Attrs (iface c)) (\<lambda>attrs.
     obind (macToID (HardwareAddr attrs)) (\<lambda>txid.
     let packet = packet\<lparr>TransactionID := txid\<rparr>;
         packet = packet\<lparr>CHAddr := HardwareAddr attrs\<rparr>;
         packet = packet\<lparr>Broadcast := True\<rparr> in
     obind (Options_Add OptionDHCPMessageType (Some (DHCPMessageType_MarshalBinary DHCPDiscover)) (Opts packet))
       (\<lambda>(opts, _).
     obind (Options_Add OptionMaximumDHCPMessageSize
         (Some (Uint16_MarshalBinary (of_nat client_maxMessageSize))) opts)
       (\<lambda>(opts, _). Returns (packet\<lparr>Opts := opts\<rparr>))))))"

text \<open>The addresses added to a request have no spare capacity; with four bytes this does not matter.\<close>

definition RequestPacket :: "'c Client \<Rightarrow> Packet \<Rightarrow> Packet outcome" where
  "RequestPacket c offer =
    (let packet = NewPacket BootRequest in
     obind (Attrs (iface c)) (\<lambda>attrs.
     let packet = packet\<lparr>CHAddr := HardwareAddr attrs\<rparr>;
         packet = packet\<lparr>TransactionID := TransactionID offer\<rparr>;
         packet = packet\<lparr>CIAddr := CIAddr offer\<rparr>;
         packet = packet\<lparr>SIAddr := SIAddr offer\<rparr>;
         packet = packet\<lparr>Broadcast := True\<rparr> in
     obind (Options_Add OptionDHCPMessageType (Some (DHCPMessageType_MarshalBinary DHCPRequest)) (Opts packet))
       (\<lambda>(opts, _).
     obind (Options_Add OptionMaximumDHCPMessageSize
         (Some (Uint16_MarshalBinary (of_nat client_maxMessageSize))) opts)
       (\<lambda>(opts, _).
     obind (Options_Add OptionRequestedIPAddress (Some (IP_MarshalBinary [] (YIAddr offer))) opts)
       (\<lambda>(opts, _).
     let sid = GetServerIdentifier (Opts offer) in
     if sid \<noteq> None
     then obind (Options_Add OptionServerIdentifier (Some (IP_MarshalBinary [] sid)) opts)
       (\<lambda>(opts, _). Returns (packet\<lparr>Opts := opts\<rparr>))
     else Returns (packet\<lparr>Opts := opts\<rparr>))))))"

section \<open>Responses and errors\<close>

record ClientPacket =
  cp_Interface :: "Link option"
  cp_Packet :: Packet

record ClientError =
  ce_Interface :: "Link option"
  ce_Err :: go_error

definition newClientErr :: "'c Client \<Rightarrow> go_error option \<Rightarrow> ClientError option" where
  "newClientErr c e = (case e of
     None \<Rightarrow> None
   | Some e \<Rightarrow> Some \<lparr>ce_Interface = iface c, ce_Err = e\<rparr>)"

text \<open>
  The text of a \<open>ClientError\<close>. How \<^verbatim>\<open>fmt\<close> quotes a name (\<^verbatim>\<open>%q\<close>) and prints the wrapped error (\<^verbatim>\<open>%v\<close>) are
  parameters.
\<close>

definition ClientError_Error ::
  "(byte list \<Rightarrow> string) \<Rightarrow> (go_error \<Rightarrow> string) \<Rightarrow> ClientError \<Rightarrow> string" where
  "ClientError_Error quoted printed ce = (case ce_Interface ce of
     Some link \<Rightarrow> ''error on '' @ quoted (link_name link) @ '': '' @ printed (ce_Err ce)
   | None \<Rightarrow> ''error without interface: '' @ printed (ce_Err ce))"

section \<open>The exchange\<close>

datatype read_answer = ReadTimedOut | ReadFailed go_error | ReadData "byte list"

text \<open>
  One iteration of the read loop: the error of the context if it is done at the top of the loop,
  the answer of \<open>ReadFrom\<close>, and the error of the parent context if that was done before the
  response could be sent on \<open>out\<close>. Answers to questions the code does not ask are ignored. The code drops
  the result of \<open>SetReadDeadline\<close>, which it calls before every \<open>ReadFrom\<close>; what that call is for is modelled
  in \<^theory_text>\<open>ClientConc\<close>.
\<close>

record iteration =
  done_err :: "go_error option"
  answer :: read_answer
  send_err :: "go_error option"

text \<open>
  The read loop of one attempt: the responses it sends on \<open>out\<close> and how it ends. It may still be at work, it may have
  returned an error or nil, and it may have panicked: on a valid packet of another transaction the code reads the
  hardware address of the interface, which may be nil. The hardware address of a decoded packet never is.
\<close>

datatype ending = AtWork | Ended "go_error option" | Crashed

type_synonym 'o ended = "'o list \<times> ending"

fun read_loop :: "'c Client \<Rightarrow> Packet \<Rightarrow> nat \<Rightarrow> iteration list \<Rightarrow> ClientPacket ended" where
  "read_loop c p numPackets [] = ([], AtWork)"
| "read_loop c p numPackets (it # its) = (case done_err it of
     Some e \<Rightarrow> ([], Ended (if 0 < numPackets then None else Some e))
   | None \<Rightarrow> (case answer it of
       ReadTimedOut \<Rightarrow> read_loop c p numPackets its
     | ReadFailed e \<Rightarrow> ([], Ended (Some (ReadingFromUDP e)))
     | ReadData b \<Rightarrow> (case Packet_UnmarshalBinary (take 1500 b) zero_Packet of
         (pkt, Some e) \<Rightarrow> read_loop c p numPackets its
       | (pkt, None) \<Rightarrow>
           if TransactionID pkt \<noteq> TransactionID p
           then (case iface c of
               None \<Rightarrow> ([], Crashed)
             | Some link \<Rightarrow> if HardwareAddr link \<noteq> CHAddr pkt then read_loop c p numPackets its
                 else read_loop c p numPackets its)
           else let numPackets = numPackets + 1;
                    clientPkt = \<lparr>cp_Interface = iface c, cp_Packet = pkt\<rparr> in
             (case send_err it of
               None \<Rightarrow> (case read_loop c p numPackets its of (outs, r) \<Rightarrow> (clientPkt # outs, r))
             | Some e \<Rightarrow> ([], Ended (Some e))))))"

text \<open>An attempt: write the packet, then read.\<close>

record attempt_env =
  write_err :: "go_error option"
  iterations :: "iteration list"

definition attempt :: "'c Client \<Rightarrow> Packet \<Rightarrow> attempt_env \<Rightarrow> ClientPacket ended" where
  "attempt c p a = (case write_err a of
     Some e \<Rightarrow> ([], Ended (Some (WritingPacket e)))
   | None \<Rightarrow> read_loop c p 0 (iterations a))"

text \<open>
  \<open>retryFn\<close>: the number of calls of \<open>fn\<close> as well. The environment supplies an answer for every call;
  when it has no more, the function is still at work.
\<close>

fun retryFn :: "int \<Rightarrow> nat \<Rightarrow> ('a \<Rightarrow> 'o ended) \<Rightarrow> 'a list \<Rightarrow> nat \<times> 'o ended" where
  "retryFn r i fn [] = (if int i < r \<or> r < 0 then (0, [], AtWork) else (0, [], Ended (Some DeadlineExceeded)))"
| "retryFn r i fn (a # as) =
    (if int i < r \<or> r < 0 then
      (case fn a of
        (outs, AtWork) \<Rightarrow> (1, outs, AtWork)
      | (outs, Crashed) \<Rightarrow> (1, outs, Crashed)
      | (outs, Ended None) \<Rightarrow> (1, outs, Ended None)
      | (outs, Ended (Some e)) \<Rightarrow>
          if e = DeadlineExceeded
          then (case retryFn r (i + 1) fn as of (n, outs', res) \<Rightarrow> (n + 1, outs @ outs', res))
          else (1, outs, Ended (Some e)))
     else (0, [], Ended (Some DeadlineExceeded)))"

text \<open>
  \<open>sendAndRead\<close>: the datagrams written, the responses, and the returned error (\<open>None\<close> while it is
  at work). A panic of the goroutine that runs it ends the program.
\<close>

definition sendAndRead :: "'c Client \<Rightarrow> udp_addr \<Rightarrow> Packet \<Rightarrow> attempt_env list \<Rightarrow>
    ((byte list \<times> udp_addr) list \<times> ClientPacket list \<times> ClientError option option) outcome" where
  "sendAndRead c dest p env = obind (Packet_MarshalBinary p) (\<lambda>r. case r of
     Inl e \<Rightarrow> Returns ([], [], Some (newClientErr c (Some e)))
   | Inr pkt \<Rightarrow> (case retryFn (retry c) 0 (attempt c p) env of
       (n, outs, AtWork) \<Rightarrow> Returns (replicate n (pkt, dest), outs, None)
     | (n, outs, Ended e) \<Rightarrow> Returns (replicate n (pkt, dest), outs, Some (newClientErr c e))
     | (n, outs, Crashed) \<Rightarrow> Panics))"

text \<open>
  What the caller of an exchange sees: the datagrams sent, the two channels, and whether they
  have been closed.
\<close>

record exchange =
  sent :: "(byte list \<times> udp_addr) list"
  out :: "ClientPacket list"
  errCh :: "ClientError list"
  closed :: bool

text \<open>\<open>SendAndRead\<close> also yields whether it has returned; \<open>SimpleSendAndRead\<close> then closes the channels.\<close>

definition SendAndRead :: "'c Client \<Rightarrow> udp_addr \<Rightarrow> Packet \<Rightarrow> attempt_env list \<Rightarrow> (exchange \<times> bool) outcome" where
  "SendAndRead c dest p env = obind (sendAndRead c dest p env) (\<lambda>(ds, outs, res).
     Returns (\<lparr>sent = ds, out = outs, errCh = (case res of Some (Some e) \<Rightarrow> [e] | _ \<Rightarrow> []), closed = False\<rparr>,
       res \<noteq> None))"

definition SimpleSendAndRead :: "'c Client \<Rightarrow> udp_addr \<Rightarrow> Packet \<Rightarrow> attempt_env list \<Rightarrow> exchange outcome" where
  "SimpleSendAndRead c dest p env = obind (SendAndRead c dest p env) (\<lambda>(x, finished).
     Returns (x\<lparr>closed := finished\<rparr>))"

text \<open>
  The callers: an error of the exchange comes as the \<open>ClientError\<close> it is; \<open>None\<close> while they wait.
  A caller that has found its response cancels the exchange; what the exchange would have done
  after that response is not looked at.
\<close>

datatype client_error = Failed ClientError | NoResponse go_error

definition is_offer :: "ClientPacket \<Rightarrow> bool" where
  "is_offer packet \<longleftrightarrow> GetDHCPMessageType (Opts (cp_Packet packet)) = DHCPOffer"

definition channel_error :: "go_error \<Rightarrow> exchange \<Rightarrow> (client_error + Packet) option" where
  "channel_error e x = (if \<not> closed x then None
     else (case errCh x of
         ce # _ \<Rightarrow> Some (Inl (Failed ce))
       | [] \<Rightarrow> Some (Inl (NoResponse e))))"

definition DiscoverOffer :: "'c Client \<Rightarrow> attempt_env list \<Rightarrow> (client_error + Packet) option outcome" where
  "DiscoverOffer c env = obind (DiscoverPacket c) (\<lambda>p.
     obind (SimpleSendAndRead c DefaultServers p env) (\<lambda>x. Returns (case find is_offer (out x) of
       Some packet \<Rightarrow> Some (Inr (cp_Packet packet))
     | None \<Rightarrow> channel_error DidntGetPacket x)))"

definition SendAndReadOne :: "'c Client \<Rightarrow> Packet \<Rightarrow> attempt_env list \<Rightarrow> (client_error + Packet) option outcome" where
  "SendAndReadOne c p env = obind (SimpleSendAndRead c DefaultServers p env) (\<lambda>x. Returns (case out x of
       response # _ \<Rightarrow> Some (Inr (cp_Packet response))
     | [] \<Rightarrow> channel_error NoPacketReceived x))"

definition Request :: "'c Client \<Rightarrow> attempt_env list \<Rightarrow> attempt_env list \<Rightarrow> (client_error + Packet) option outcome" where
  "Request c env1 env2 = obind (DiscoverOffer c env1) (\<lambda>r. case r of
     None \<Rightarrow> Returns None
   | Some (Inl e) \<Rightarrow> Returns (Some (Inl e))
   | Some (Inr offer) \<Rightarrow> obind (RequestPacket c offer) (\<lambda>p. SendAndReadOne c p env2))"

definition Renew :: "'c Client \<Rightarrow> Packet \<Rightarrow> attempt_env list \<Rightarrow> (client_error + Packet) option outcome" where
  "Renew c ack env = obind (RequestPacket c ack) (\<lambda>p. SendAndReadOne c p env)"

section \<open>The packets the client builds\<close>

lemma macToID_eq:
  "macToID mac = (if length mac < 4 then Panics else Returns (take 4 (rev mac)))"
proof (cases "length mac < 4")
  case True
  then show ?thesis by (auto simp: macToID_def Let_def go_index_def)
next
  case False
  then have "Suc (Suc (Suc (Suc 0))) \<le> length (rev mac)" by simp
  then obtain a b c d rest where "rev mac = a # b # c # d # rest"
    unfolding Suc_le_length_iff by blast
  then have "rev (rev mac) = rev rest @ [d, c, b, a]" by simp
  then have "mac = rev rest @ [d, c, b, a]" by simp
  then show ?thesis by (simp add: macToID_def Let_def go_index_def nth_append nat_add_distrib)
qed

text \<open>The options of the two requests, and the requests.\<close>

definition discover_packet :: "byte list \<Rightarrow> Packet" where
  "discover_packet mac = (NewPacket BootRequest)\<lparr>TransactionID := take 4 (rev mac), Broadcast := True,
     CHAddr := mac, Opts := [OptionDHCPMessageType \<mapsto> [DHCPDiscover], OptionMaximumDHCPMessageSize \<mapsto> [5, 220]]\<rparr>"

definition request_opts :: "byte list \<Rightarrow> net_IP \<Rightarrow> Options" where
  "request_opts yi sid = (let opts = [OptionDHCPMessageType \<mapsto> [DHCPRequest],
       OptionMaximumDHCPMessageSize \<mapsto> [5, 220], OptionRequestedIPAddress \<mapsto> yi] in
     case sid of None \<Rightarrow> opts | Some s \<Rightarrow> opts(OptionServerIdentifier \<mapsto> s))"

definition request_packet :: "byte list \<Rightarrow> Packet \<Rightarrow> byte list \<Rightarrow> Packet" where
  "request_packet mac offer yi = (NewPacket BootRequest)\<lparr>TransactionID := TransactionID offer, Broadcast := True,
     CIAddr := CIAddr offer, SIAddr := SIAddr offer, CHAddr := mac,
     Opts := request_opts yi (GetServerIdentifier (Opts offer))\<rparr>"

lemma size_option: "Uint16_MarshalBinary (of_nat client_maxMessageSize) = Returns (Inr [5, 220])"
proof -
  have low_byte: "(1500 :: byte) = 220" by simp
  show ?thesis
    by (simp add: Uint16_MarshalBinary_def client_maxMessageSize_def NewBigEndianBuffer_eq write_simps PutUint16_def
        in_order_def be16_def low_byte)
qed

text \<open>The hardware address of the client's interface, if it has one.\<close>

definition mac_of :: "'c Client \<Rightarrow> byte list" where
  "mac_of c = (case iface c of None \<Rightarrow> [] | Some link \<Rightarrow> HardwareAddr link)"

lemma DiscoverPacket_eq:
  "DiscoverPacket c = (if length (mac_of c) < 4 then Panics else Returns (discover_packet (mac_of c)))"
  by (cases "iface c") (simp_all add: DiscoverPacket_def mac_of_def macToID_eq size_option Options_Add_def
      DHCPMessageType_MarshalBinary_def AddRaw_def discover_packet_def NewPacket_def zero_Packet_def Let_def)

lemma RequestPacket_eq:
  assumes "iface c = Some link" and "YIAddr offer = Some yi" and "length yi = 4"
  shows "RequestPacket c offer = Returns (request_packet (mac_of c) offer yi)"
proof (cases "GetServerIdentifier (Opts offer)")
  case None
  with assms show ?thesis
    by (simp add: RequestPacket_def size_option Options_Add_def DHCPMessageType_MarshalBinary_def
        IP_MarshalBinary_def slice4_def AddRaw_def mac_of_def request_packet_def request_opts_def NewPacket_def zero_Packet_def Let_def)
next
  case (Some sid)
  then have "length sid = 4" by (auto simp: GetServerIdentifier_def dest: GetIP_length)
  with Some assms show ?thesis
    by (simp add: RequestPacket_def size_option Options_Add_def DHCPMessageType_MarshalBinary_def
        IP_MarshalBinary_def slice4_def AddRaw_def mac_of_def request_packet_def request_opts_def NewPacket_def zero_Packet_def Let_def)
qed

text \<open>With a hardware address of 4 to 16 bytes, both requests can be encoded.\<close>

lemma discover_encodable: "4 \<le> length mac \<Longrightarrow> length mac \<le> 16 \<Longrightarrow> encodable (discover_packet mac)"
  by (simp add: encodable_def discover_packet_def NewPacket_def zero_Packet_def wf_packet_def header_writable_def
      marshalable_def ip_writable_def)

lemma discover_received:
  assumes "4 \<le> length mac" and "length mac \<le> 16"
  shows "ParsePacket (take 1500 (packet_bytes (discover_packet mac))) = Inr (canonical (discover_packet mac))"
    and "length (packet_bytes (discover_packet mac)) \<le> 1500"
proof -
  note e = discover_encodable [OF assms]
  show "length (packet_bytes (discover_packet mac)) \<le> 1500"
    by (subst length_packet_bytes [OF e]) (auto simp: discover_packet_def split: if_splits)
  with ParsePacket_packet_bytes [OF e]
  show "ParsePacket (take 1500 (packet_bytes (discover_packet mac))) = Inr (canonical (discover_packet mac))" by simp
qed

lemma request_received:
  assumes "length mac \<le> 16" and "length yi = 4" and "wf_packet offer"
    and "CIAddr offer = Some ci" and "length ci = 4" and "SIAddr offer = Some si" and "length si = 4"
  defines "p \<equiv> request_packet mac offer yi"
  shows "encodable p" and "ParsePacket (take 1500 (packet_bytes p)) = Inr (canonical p)"
    and "GetDHCPMessageType (Opts (canonical p)) = DHCPRequest"
    and "GetRequestedIPAddress (Opts (canonical p)) = Some yi"
    and "CHAddr (canonical p) = mac" and "length (packet_bytes p) \<le> 1500"
proof -
  have sid: "ip_sid \<noteq> [] \<and> length ip_sid = 4" if "GetServerIdentifier (Opts offer) = Some ip_sid" for ip_sid
    using that GetIP_length [of OptionServerIdentifier "Opts offer" ip_sid] by (auto simp: GetServerIdentifier_def)
  have yi: "yi \<noteq> []" using assms(2) by auto
  show e: "encodable p"
    using assms by (auto simp: p_def request_packet_def request_opts_def encodable_def NewPacket_def zero_Packet_def
        wf_packet_def header_writable_def marshalable_def ip_writable_def Let_def split: option.splits)
  have bytes: "Opts p c = Some d \<Longrightarrow> d \<noteq> [] \<and> length d \<le> 4" for c d
    using sid yi assms(2) by (auto simp: p_def request_packet_def request_opts_def Let_def split: option.splits if_splits)
  show "length (packet_bytes p) \<le> 1500"
  proof (subst length_packet_bytes [OF e])
    show "d \<noteq> [] \<and> length d \<le> 255" if "Opts p c = Some d" for c d using bytes [OF that] by simp
    show "241 + (\<Sum>c \<in> dom (Opts p). 2 + length (bytes_of (Opts p c))) \<le> 1500"
      using assms(2) sid by (auto simp: p_def request_packet_def request_opts_def Let_def split: option.splits)
  qed
  with ParsePacket_packet_bytes [OF e]
  show "ParsePacket (take 1500 (packet_bytes p)) = Inr (canonical p)" by simp
  have "drop_empty (Opts p) = Opts p" using bytes by (auto simp: drop_empty_def fun_eq_iff)
  then have o: "Opts (canonical p) = request_opts yi (GetServerIdentifier (Opts offer))"
    by (simp add: canonical_def p_def request_packet_def)
  show "GetDHCPMessageType (Opts (canonical p)) = DHCPRequest" "GetRequestedIPAddress (Opts (canonical p)) = Some yi"
    using assms(2) by (auto simp: o request_opts_def GetDHCPMessageType_eq GetRequestedIPAddress_def GetIP_eq Let_def
        split: option.splits)
  show "CHAddr (canonical p) = mac" by (simp add: canonical_def p_def request_packet_def)
qed

section \<open>What an exchange delivers\<close>

text \<open>The responses in what an iteration reads: packets with the transaction of the request.\<close>

definition responses :: "Packet \<Rightarrow> iteration \<Rightarrow> Packet list" where
  "responses p it = (case answer it of
     ReadData b \<Rightarrow> (case ParsePacket (take 1500 b) of
       Inr pkt \<Rightarrow> if TransactionID pkt = TransactionID p then [pkt] else []
     | Inl _ \<Rightarrow> [])
   | _ \<Rightarrow> [])"

text \<open>An iteration that reads a valid packet of another transaction.\<close>

definition alien :: "Packet \<Rightarrow> iteration \<Rightarrow> bool" where
  "alien p it \<longleftrightarrow> (case answer it of
     ReadData b \<Rightarrow> (case ParsePacket (take 1500 b) of
       Inr pkt \<Rightarrow> TransactionID pkt \<noteq> TransactionID p
     | Inl _ \<Rightarrow> False)
   | _ \<Rightarrow> False)"

text \<open>
  An iteration in which neither the connection nor a context fails, and that a client without an interface
  survives: it does not look at the hardware address of the interface.
\<close>

definition undisturbed :: "'c Client \<Rightarrow> Packet \<Rightarrow> iteration \<Rightarrow> bool" where
  "undisturbed c p it \<longleftrightarrow> done_err it = None \<and> send_err it = None \<and> (\<forall>e. answer it \<noteq> ReadFailed e) \<and>
     (iface c = None \<longrightarrow> \<not> alien p it)"

definition client_packet :: "'c Client \<Rightarrow> Packet \<Rightarrow> ClientPacket" where
  "client_packet c pkt = \<lparr>cp_Interface = iface c, cp_Packet = pkt\<rparr>"

lemma UnmarshalBinary_ParsePacket:
  "Packet_UnmarshalBinary q zero_Packet = (pkt, None) \<Longrightarrow> ParsePacket q = Inr pkt"
  "Packet_UnmarshalBinary q zero_Packet = (pkt, Some e) \<Longrightarrow> ParsePacket q = Inl e"
  by (simp_all add: ParsePacket_def)

lemma read_loop_undisturbed:
  "(\<And>it. it \<in> set its \<Longrightarrow> undisturbed c p it) \<Longrightarrow>
    read_loop c p n (its @ rest) =
      (case read_loop c p (n + length (concat (map (responses p) its))) rest of
        (outs, r) \<Rightarrow> (map (client_packet c) (concat (map (responses p) its)) @ outs, r))"
proof (induction its arbitrary: n)
  case (Cons it its)
  have it: "done_err it = None" "send_err it = None" "\<And>e. answer it \<noteq> ReadFailed e" "iface c = None \<Longrightarrow> \<not> alien p it"
    using Cons.prems [of it] by (auto simp: undisturbed_def)
  note IH = Cons.IH [OF Cons.prems]
  show ?case
  proof (cases "answer it")
    case ReadTimedOut
    then show ?thesis using it IH by (simp add: responses_def)
  next
    case (ReadFailed e)
    then show ?thesis using it by simp
  next
    case (ReadData b)
    obtain pkt e where u: "Packet_UnmarshalBinary (take 1500 b) zero_Packet = (pkt, e)" by fastforce
    show ?thesis
    proof (cases e)
      case None
      note pp = UnmarshalBinary_ParsePacket(1) [OF u [unfolded None]]
      show ?thesis
        using it IH ReadData u None pp
        by (auto simp: responses_def alien_def client_packet_def Let_def split: prod.splits option.splits)
    next
      case (Some e')
      note pp = UnmarshalBinary_ParsePacket(2) [OF u [unfolded Some]]
      show ?thesis using it IH ReadData u Some pp by (simp add: responses_def)
    qed
  qed
qed simp

lemma read_loop_sound:
  "cp \<in> set (fst (read_loop c p n its)) \<Longrightarrow> \<exists>it \<in> set its. \<exists>pkt \<in> set (responses p it). cp = client_packet c pkt"
proof (induction its arbitrary: n)
  case (Cons it its)
  show ?case
  proof (cases "done_err it = None")
    case True
    then show ?thesis
    proof (cases "answer it")
      case (ReadData b)
      obtain pkt e where u: "Packet_UnmarshalBinary (take 1500 b) zero_Packet = (pkt, e)" by fastforce
      show ?thesis
      proof (cases "e = None \<and> TransactionID pkt = TransactionID p \<and> send_err it = None")
        case new: True
        then have "pkt \<in> set (responses p it)"
          using ReadData u UnmarshalBinary_ParsePacket(1) [of "take 1500 b" pkt] by (simp add: responses_def)
        moreover have "cp = client_packet c pkt \<or> cp \<in> set (fst (read_loop c p (n + 1) its))"
          using Cons.prems True ReadData u new by (auto simp: client_packet_def Let_def split: prod.splits)
        ultimately show ?thesis using Cons.IH [of "n + 1"] by auto
      next
        case False
        then have "cp \<in> set (fst (read_loop c p n its))"
          using Cons.prems True ReadData u
          by (cases e) (auto simp: Let_def split: if_splits option.splits)
        with Cons.IH show ?thesis by fastforce
      qed
    qed (use True Cons in \<open>auto\<close>)
  qed (use Cons.prems in auto)
qed simp

lemma attempt_sound:
  "cp \<in> set (fst (attempt c p a)) \<Longrightarrow>
    \<exists>it \<in> set (iterations a). \<exists>pkt \<in> set (responses p it). cp = client_packet c pkt"
  using read_loop_sound [of cp c p 0 "iterations a"] by (cases "write_err a") (auto simp: attempt_def)

section \<open>Retries\<close>

lemma retryFn_outs: "retryFn r i fn env = (n, outs, res) \<Longrightarrow> x \<in> set outs \<Longrightarrow> \<exists>a \<in> set env. x \<in> set (fst (fn a))"
proof (induction env arbitrary: i n outs res)
  case (Cons a env)
  obtain o1 r1 where fa: "fn a = (o1, r1)" by (cases "fn a")
  obtain n' outs' res' where rec: "retryFn r (i + 1) fn env = (n', outs', res')" by (cases "retryFn r (i + 1) fn env") auto
  from Cons.prems fa rec have "x \<in> set o1 \<or> x \<in> set outs'"
    by (auto split: if_splits option.splits ending.splits)
  with Cons.IH [OF rec] fa show ?case by auto
qed (auto split: if_splits)

lemma retryFn_calls:
  "retryFn r i fn env = (n, outs, res) \<Longrightarrow> n \<le> length env \<and> (0 \<le> r \<longrightarrow> n \<le> nat r - i)"
proof (induction env arbitrary: i n outs res)
  case (Cons a env)
  obtain n' outs' res' where rec: "retryFn r (i + 1) fn env = (n', outs', res')" by (cases "retryFn r (i + 1) fn env") auto
  obtain o1 r1 where fa: "fn a = (o1, r1)" by (cases "fn a")
  from Cons.prems fa rec have "n = 0 \<or> (int i < r \<or> r < 0) \<and> (n = 1 \<or> n = n' + 1)"
    by (auto split: if_splits option.splits ending.splits)
  with Cons.IH [OF rec] show ?case by (cases "r < 0") auto
qed (auto split: if_splits)

text \<open>Attempts that end with the deadline and no response.\<close>

lemma retryFn_silent:
  "(\<And>a. a \<in> set env \<Longrightarrow> fn a = ([], Ended (Some DeadlineExceeded))) \<Longrightarrow>
    retryFn r i fn env =
      (if 0 \<le> r \<and> nat r - i \<le> length env then (nat r - i, [], Ended (Some DeadlineExceeded))
       else (length env, [], AtWork))"
proof (induction env arbitrary: i)
  case (Cons a env)
  have fa: "fn a = ([], Ended (Some DeadlineExceeded))" using Cons.prems by simp
  show ?case
  proof (cases "int i < r \<or> r < 0")
    case True
    with fa Cons.IH [of "i + 1"] Cons.prems show ?thesis by (cases "r < 0") auto
  qed auto
qed auto

text \<open>After such attempts, another one.\<close>

lemma retryFn_after:
  "(\<And>a. a \<in> set env \<Longrightarrow> fn a = ([], Ended (Some DeadlineExceeded))) \<Longrightarrow> int (i + length env) < r \<or> r < 0 \<Longrightarrow>
    retryFn r i fn (env @ rest) = (case retryFn r (i + length env) fn rest of (n, outs, res) \<Rightarrow> (length env + n, outs, res))"
proof (induction env arbitrary: i)
  case (Cons a env)
  have "int i < r \<or> r < 0" using Cons.prems(2) by auto
  moreover have "fn a = ([], Ended (Some DeadlineExceeded))" using Cons.prems(1) by simp
  ultimately show ?case using Cons.IH [of "i + 1"] Cons.prems by (auto split: prod.splits)
qed simp

text \<open>An attempt that reads no response before its deadline.\<close>

definition silent :: "'c Client \<Rightarrow> Packet \<Rightarrow> attempt_env \<Rightarrow> bool" where
  "silent c p a \<longleftrightarrow> write_err a = None \<and> (\<exists>its it later. iterations a = its @ it # later \<and>
     done_err it = Some DeadlineExceeded \<and> (\<forall>i \<in> set its. undisturbed c p i \<and> responses p i = []))"

lemma attempt_silent: "silent c p a \<Longrightarrow> attempt c p a = ([], Ended (Some DeadlineExceeded))"
proof -
  assume "silent c p a"
  then obtain its it later where a: "write_err a = None" "iterations a = its @ it # later"
    "done_err it = Some DeadlineExceeded" "\<And>i. i \<in> set its \<Longrightarrow> undisturbed c p i"
    "concat (map (responses p) its) = []"
    by (auto simp: silent_def)
  from a read_loop_undisturbed [of its c p 0 "it # later", OF a(4)] show ?thesis by (simp add: attempt_def)
qed

lemma sendAndRead_responses:
  assumes "sendAndRead c dest p env = Returns (ds, outs, res)" and "cp \<in> set outs"
  obtains a it b pkt where "a \<in> set env" and "it \<in> set (iterations a)" and "answer it = ReadData b"
    and "ParsePacket (take 1500 b) = Inr pkt" and "TransactionID pkt = TransactionID p" and "cp = client_packet c pkt"
proof -
  obtain n o' r' where rt: "retryFn (retry c) 0 (attempt c p) env = (n, o', r')"
    by (cases "retryFn (retry c) 0 (attempt c p) env") auto
  obtain r where "Packet_MarshalBinary p = Returns r" using assms(1) by (auto simp: sendAndRead_def outcome_simps)
  with assms(1) rt have "outs = o' \<or> outs = []" by (cases r) (auto simp: sendAndRead_def split: ending.splits)
  with assms(2) have "cp \<in> set o'" by auto
  with retryFn_outs [OF rt] attempt_sound [of cp c p] obtain a it pkt where
    "a \<in> set env" "it \<in> set (iterations a)" "pkt \<in> set (responses p it)" "cp = client_packet c pkt" by blast
  moreover from this(3) obtain b where "answer it = ReadData b" "ParsePacket (take 1500 b) = Inr pkt"
    "TransactionID pkt = TransactionID p"
    by (cases "answer it") (auto simp: responses_def split: sum.splits if_splits)
  ultimately show ?thesis using that by blast
qed

text \<open>A client that has an interface does not panic while it reads.\<close>

lemma read_loop_no_crash: "iface c \<noteq> None \<Longrightarrow> snd (read_loop c p n its) \<noteq> Crashed"
proof (induction its arbitrary: n)
  case (Cons it its)
  from Cons.IH [OF Cons.prems, of "Suc n"] have "read_loop c p (Suc n) its \<noteq> (outs, Crashed)" for outs by auto
  with Cons show ?case by (auto simp: Let_def split: option.splits read_answer.splits prod.splits)
qed simp

lemma attempt_no_crash: "iface c \<noteq> None \<Longrightarrow> snd (attempt c p a) \<noteq> Crashed"
  using read_loop_no_crash [of c p 0 "iterations a"] by (simp add: attempt_def split: option.split)

lemma retryFn_no_crash:
  "(\<And>a. snd (fn a) \<noteq> Crashed) \<Longrightarrow> retryFn r i fn env = (n, outs, res) \<Longrightarrow> res \<noteq> Crashed"
proof (induction env arbitrary: i n outs res)
  case (Cons a env)
  obtain n' outs' res' where rec: "retryFn r (i + 1) fn env = (n', outs', res')" by (cases "retryFn r (i + 1) fn env") auto
  obtain o1 r1 where fa: "fn a = (o1, r1)" by (cases "fn a")
  from Cons.prems(1) [of a] fa have "r1 \<noteq> Crashed" by simp
  with Cons.IH [OF Cons.prems(1) rec] Cons.prems(2) fa rec show ?case
    by (auto split: if_splits option.splits ending.splits)
qed (auto split: if_splits)

text \<open>
  An attempt in which, after other traffic, the given datagram arrives at a client that has an interface; what happens
  later is left open.
\<close>

definition answered :: "'c Client \<Rightarrow> Packet \<Rightarrow> byte list \<Rightarrow> attempt_env \<Rightarrow> bool" where
  "answered c p b a \<longleftrightarrow> iface c \<noteq> None \<and> write_err a = None \<and> (\<exists>its later. iterations a =
     its @ \<lparr>done_err = None, answer = ReadData b, send_err = None\<rparr> # later \<and>
     (\<forall>i \<in> set its. undisturbed c p i \<and> responses p i = []))"

lemma sendAndRead_answered:
  assumes "answered c p b a" and "ParsePacket (take 1500 b) = Inr pkt" and "TransactionID pkt = TransactionID p"
    and "Packet_MarshalBinary p = Returns (Inr bs)" and "retry c \<noteq> 0"
  shows "\<exists>ds outs res. sendAndRead c dest p (a # env) = Returns (ds, client_packet c pkt # outs, res)"
proof -
  let ?it = "\<lparr>done_err = None, answer = ReadData b, send_err = None\<rparr>"
  obtain its later where i: "write_err a = None" "iterations a = its @ ?it # later" "iface c \<noteq> None"
    "\<forall>i \<in> set its. undisturbed c p i \<and> responses p i = []"
    using assms(1) by (auto simp: answered_def)
  have a: "write_err a = None" "iterations a = (its @ [?it]) @ later" "concat (map (responses p) its) = []"
    using i by simp_all
  have u: "undisturbed c p j" if "j \<in> set (its @ [?it])" for j
    using that i(3,4) by (auto simp: undisturbed_def)
  have rs: "concat (map (responses p) (its @ [?it])) = [pkt]"
    using assms(2,3) a(3) by (simp add: responses_def)
  obtain outs res where "read_loop c p 1 later = (outs, res)" by fastforce
  with a(1,2) read_loop_undisturbed [of "its @ [?it]" c p 0 later, OF u, unfolded rs]
  have "attempt c p a = (client_packet c pkt # outs, res)" by (simp add: attempt_def)
  moreover obtain n' o' r' where "retryFn (retry c) 1 (attempt c p) env = (n', o', r')"
    by (cases "retryFn (retry c) 1 (attempt c p) env")
  ultimately have "\<exists>n outs' res'. retryFn (retry c) 0 (attempt c p) (a # env) = (n, client_packet c pkt # outs', res')"
    using assms(5) attempt_no_crash [OF i(3), of p a] by (auto split: option.split ending.split)
  then obtain n outs' res' where r: "retryFn (retry c) 0 (attempt c p) (a # env) = (n, client_packet c pkt # outs', res')"
    by blast
  moreover have "res' \<noteq> Crashed" by (rule retryFn_no_crash [OF attempt_no_crash [OF i(3)] r])
  ultimately show ?thesis using assms(4) by (cases res') (auto simp: sendAndRead_def simp del: retryFn.simps)
qed

lemma SendAndReadOne_answered:
  assumes "answered c p b a" and "ParsePacket (take 1500 b) = Inr pkt" and "TransactionID pkt = TransactionID p"
    and "Packet_MarshalBinary p = Returns (Inr bs)" and "retry c \<noteq> 0"
  shows "SendAndReadOne c p (a # env) = Returns (Some (Inr pkt))"
  using sendAndRead_answered [OF assms, of DefaultServers env]
  by (auto simp: SendAndReadOne_def SimpleSendAndRead_def SendAndRead_def client_packet_def)

lemma DiscoverOffer_answered:
  assumes "DiscoverPacket c = Returns p" and "GetDHCPMessageType (Opts pkt) = DHCPOffer"
    and "answered c p b a" and "ParsePacket (take 1500 b) = Inr pkt" and "TransactionID pkt = TransactionID p"
    and "Packet_MarshalBinary p = Returns (Inr bs)" and "retry c \<noteq> 0"
  shows "DiscoverOffer c (a # env) = Returns (Some (Inr pkt))"
  using sendAndRead_answered [OF assms(3-7), of DefaultServers env] assms(1,2)
  by (auto simp: DiscoverOffer_def SimpleSendAndRead_def SendAndRead_def client_packet_def is_offer_def)

section \<open>A concrete client and a concrete response\<close>

definition example_client :: "unit Client" where
  "example_client = \<lparr>iface = Some \<lparr>link_name = [], HardwareAddr = [2, 0, 0, 0, 0, 7]\<rparr>, conn = Some (),
     timeout = 1, retry = 2\<rparr>"

definition example_offer :: Packet where
  "example_offer = (NewPacket BootReply)\<lparr>TransactionID := [7, 0, 0, 0], CIAddr := Some [0, 0, 0, 0],
     YIAddr := Some [192, 168, 1, 9], SIAddr := Some [192, 168, 0, 1], GIAddr := Some [0, 0, 0, 0],
     CHAddr := [2, 0, 0, 0, 0, 7], Opts := [OptionDHCPMessageType \<mapsto> [DHCPOffer]]\<rparr>"

text \<open>An attempt that reads once before its deadline.\<close>

definition example_env :: "read_answer \<Rightarrow> attempt_env" where
  "example_env r = \<lparr>write_err = None, iterations = [\<lparr>done_err = None, answer = r, send_err = None\<rparr>,
     \<lparr>done_err = Some DeadlineExceeded, answer = ReadTimedOut, send_err = None\<rparr>]\<rparr>"

lemma example_offer_ok:
  "encodable example_offer" "Packet_MarshalBinary example_offer = Returns (Inr (packet_bytes example_offer))"
  "ParsePacket (take 1500 (packet_bytes example_offer)) = Inr example_offer"
proof -
  show e: "encodable example_offer"
    by (simp add: example_offer_def encodable_def NewPacket_def zero_Packet_def wf_packet_def header_writable_def
        marshalable_def ip_writable_def)
  then show "Packet_MarshalBinary example_offer = Returns (Inr (packet_bytes example_offer))"
    by (rule encodable_marshals)
  have "length (packet_bytes example_offer) \<le> 1500"
    by (subst length_packet_bytes [OF e]) (auto simp: example_offer_def split: if_splits)
  moreover have "canonical example_offer = example_offer"
    by (auto simp: canonical_def example_offer_def drop_empty_def fun_eq_iff ip4_field_def NewPacket_def zero_Packet_def)
  ultimately show "ParsePacket (take 1500 (packet_bytes example_offer)) = Inr example_offer"
    using ParsePacket_packet_bytes [OF e] by simp
qed

lemma example_silent:
  "silent example_client example_offer (example_env ReadTimedOut)"
  "silent example_client example_offer (example_env (ReadData [1, 2]))"
proof -
  have short: "\<exists>e. ParsePacket [1, 2] = Inl e" using ParsePacket_length [of "[1, 2]"] by (cases "ParsePacket [1, 2]") auto
  have "silent example_client example_offer (example_env r)" if "r = ReadTimedOut \<or> r = ReadData [1, 2]" for r
    unfolding silent_def example_env_def
    by (rule conjI, simp, rule exI [of _ "[\<lparr>done_err = None, answer = r, send_err = None\<rparr>]"])
      (use that short in \<open>auto simp: undisturbed_def responses_def alien_def example_client_def\<close>)
  then show "silent example_client example_offer (example_env ReadTimedOut)"
    "silent example_client example_offer (example_env (ReadData [1, 2]))" by simp_all
qed

section \<open>Properties\<close>

text \<open>
  C26. Every response that an exchange delivers was read from the connection in one of its attempts,
  is a valid DHCP packet, carries the transaction of the request and is marked with the interface;
  whatever the environment does, every datagram sent is the encoded request to the destination, and there are
  at most as many as the client's retry count, if that is not negative.
\<close>

theorem exchange_sound:
  assumes "sendAndRead c dest p env = Returns (ds, outs, res)"
  shows "(\<forall>cp \<in> set outs. cp_Interface cp = iface c \<and> TransactionID (cp_Packet cp) = TransactionID p \<and>
      (\<exists>a \<in> set env. \<exists>it \<in> set (iterations a). \<exists>b. answer it = ReadData b \<and>
        ParsePacket (take 1500 b) = Inr (cp_Packet cp))) \<and>
    (\<forall>d \<in> set ds. \<exists>pkt. Packet_MarshalBinary p = Returns (Inr pkt) \<and> d = (pkt, dest)) \<and>
    (0 \<le> retry c \<longrightarrow> length ds \<le> nat (retry c)) \<and> length ds \<le> length env"
proof -
  obtain r where m: "Packet_MarshalBinary p = Returns r" using assms by (auto simp: sendAndRead_def outcome_simps)
  show ?thesis
  proof (cases r)
    case (Inl e)
    with m assms show ?thesis by (simp add: sendAndRead_def)
  next
    case (Inr pkt)
    obtain n o' r' where rt: "retryFn (retry c) 0 (attempt c p) env = (n, o', r')"
      by (cases "retryFn (retry c) 0 (attempt c p) env") auto
    have eqs: "ds = replicate n (pkt, dest)" "outs = o'"
      using assms m Inr rt by (auto simp: sendAndRead_def split: ending.splits)
    have "cp_Interface cp = iface c \<and> TransactionID (cp_Packet cp) = TransactionID p \<and>
        (\<exists>a \<in> set env. \<exists>it \<in> set (iterations a). \<exists>b. answer it = ReadData b \<and>
          ParsePacket (take 1500 b) = Inr (cp_Packet cp))" if "cp \<in> set outs" for cp
      using sendAndRead_responses [OF assms that] by (metis ClientPacket.select_convs client_packet_def)
    with retryFn_calls [OF rt] eqs m Inr show ?thesis by auto
  qed
qed

theorem exchange_sound_witness:
  "\<exists>ds outs res. sendAndRead example_client DefaultServers example_offer
      [example_env (ReadData (packet_bytes example_offer))] = Returns (ds, outs, res) \<and>
    length ds = 1 \<and> map cp_Packet outs = [example_offer] \<and>
    (\<forall>cp \<in> set outs. cp_Interface cp = iface example_client \<and> TransactionID (cp_Packet cp) = [7, 0, 0, 0])"
proof -
  have "read_loop example_client example_offer 0 (iterations (example_env (ReadData (packet_bytes example_offer)))) =
      ([client_packet example_client example_offer], Ended None)"
    using read_loop_undisturbed [of "[hd (iterations (example_env (ReadData (packet_bytes example_offer))))]"
        example_client example_offer 0 "tl (iterations (example_env (ReadData (packet_bytes example_offer))))"]
    by (simp add: example_env_def undisturbed_def example_client_def responses_def example_offer_ok(3))
  then have r: "sendAndRead example_client DefaultServers example_offer [example_env (ReadData (packet_bytes example_offer))] =
      Returns ([(packet_bytes example_offer, DefaultServers)], [client_packet example_client example_offer], Some None)"
    by (simp add: sendAndRead_def example_offer_ok(2) attempt_def example_env_def newClientErr_def)
      (simp add: example_client_def)
  have "TransactionID example_offer = [7, 0, 0, 0]" by (simp add: example_offer_def)
  with exchange_sound [OF r] r show ?thesis by (simp add: client_packet_def)
qed

text \<open>
  C27. No response is lost: when, after attempts without a response, an attempt within the retry limit reads
  undisturbed until its context is done, all valid packets with the transaction of the request are delivered, in the
  order in which they arrived, whoever they are addressed to; one response is enough for the exchange to end without
  an error, after one datagram per attempt. A client whose interface is nil is disturbed by a valid packet
  of another transaction: it panics.
\<close>

theorem exchange_complete:
  assumes "Packet_MarshalBinary p = Returns (Inr pkt)" and "\<forall>a \<in> set before. silent c p a"
    and "retry c < 0 \<or> int (length before) < retry c" and "write_err a = None"
    and "iterations a = its @ it # later" and "\<forall>i \<in> set its. undisturbed c p i" and "done_err it = Some e"
    and "concat (map (responses p) its) \<noteq> []"
  shows "sendAndRead c dest p (before @ a # env) =
    Returns (replicate (length before + 1) (pkt, dest), map (client_packet c) (concat (map (responses p) its)), Some None)"
proof -
  have "read_loop c p 0 (iterations a) = (map (client_packet c) (concat (map (responses p) its)), Ended None)"
    using read_loop_undisturbed [of its c p 0 "it # later"] assms(5-8) by auto
  then have "attempt c p a = (map (client_packet c) (concat (map (responses p) its)), Ended None)"
    using assms(4) by (simp add: attempt_def)
  moreover have "attempt c p b = ([], Ended (Some DeadlineExceeded))" if "b \<in> set before" for b
    using that assms(2) attempt_silent by blast
  ultimately have "retryFn (retry c) 0 (attempt c p) (before @ a # env) =
      (length before + 1, map (client_packet c) (concat (map (responses p) its)), Ended None)"
    using assms(3) by (subst retryFn_after) auto
  with assms(1) show ?thesis by (simp add: sendAndRead_def newClientErr_def)
qed

theorem exchange_complete_witness:
  "sendAndRead example_client DefaultServers example_offer
      [example_env ReadTimedOut, example_env (ReadData (packet_bytes example_offer))] =
    Returns ([(packet_bytes example_offer, DefaultServers), (packet_bytes example_offer, DefaultServers)],
      [client_packet example_client example_offer], Some None)"
proof -
  let ?it = "\<lparr>done_err = None, answer = ReadData (packet_bytes example_offer), send_err = None\<rparr>"
  have r: "responses example_offer ?it = [example_offer]" by (simp add: responses_def example_offer_ok(3))
  show ?thesis
    using exchange_complete [OF example_offer_ok(2), of "[example_env ReadTimedOut]" example_client
        "example_env (ReadData (packet_bytes example_offer))" "[?it]" _ _ DeadlineExceeded DefaultServers "[]"]
      example_silent(1)
    by (simp add: example_client_def example_env_def undisturbed_def r numeral_2_eq_2)
qed

text \<open>
  C28. Giving up: when no attempt is answered, the client sends the request exactly as often as its
  retry count says, which is thus the number of transmissions and not, as the comment of \<open>WithRetry\<close> has it, of
  retransmissions, and then reports that the deadline was exceeded; with a negative count it
  goes on for as long as the deadlines keep expiring. Packets of other transactions are no answer; a client whose
  interface is nil must not receive one, because it panics.
\<close>

theorem exchange_gives_up:
  assumes "Packet_MarshalBinary p = Returns (Inr pkt)" and "\<forall>a \<in> set env. silent c p a"
  shows "sendAndRead c dest p env =
    (if 0 \<le> retry c \<and> nat (retry c) \<le> length env
     then Returns (replicate (nat (retry c)) (pkt, dest), [],
       Some (Some \<lparr>ce_Interface = iface c, ce_Err = DeadlineExceeded\<rparr>))
     else Returns (replicate (length env) (pkt, dest), [], None))"
proof -
  have "attempt c p a = ([], Ended (Some DeadlineExceeded))" if "a \<in> set env" for a
    using assms(2) that attempt_silent by blast
  with retryFn_silent [of env "attempt c p" "retry c" 0] assms(1) show ?thesis
    by (simp add: sendAndRead_def newClientErr_def)
qed

theorem exchange_gives_up_witness:
  "sendAndRead example_client DefaultServers example_offer [example_env ReadTimedOut, example_env (ReadData [1, 2])] =
    Returns ([(packet_bytes example_offer, DefaultServers), (packet_bytes example_offer, DefaultServers)], [],
      Some (Some \<lparr>ce_Interface = iface example_client, ce_Err = DeadlineExceeded\<rparr>))"
proof -
  have "\<forall>a \<in> set [example_env ReadTimedOut, example_env (ReadData [1, 2])]. silent example_client example_offer a"
    using example_silent by simp
  from exchange_gives_up [OF example_offer_ok(2) this, of DefaultServers] show ?thesis
    by (simp add: example_client_def numeral_2_eq_2)
qed

text \<open>
  A client that was created without an interface panics on the first valid packet of another transaction.
\<close>

lemma exchange_without_interface:
  assumes "Packet_MarshalBinary p = Returns (Inr pkt)" and "retry c \<noteq> 0" and "write_err a = None"
    and "iterations a = its @ it # later" and "\<forall>i \<in> set its. undisturbed c p i"
    and "iface c = None" and "done_err it = None" and "alien p it"
  shows "sendAndRead c dest p (a # env) = Panics"
proof -
  obtain b q where b: "answer it = ReadData b" "ParsePacket (take 1500 b) = Inr q" "TransactionID q \<noteq> TransactionID p"
    using assms(8) by (auto simp: alien_def split: read_answer.splits sum.splits)
  then have "Packet_UnmarshalBinary (take 1500 b) zero_Packet = (q, None)"
    by (auto simp: ParsePacket_def split: prod.splits option.splits)
  with b assms(6,7) have "read_loop c p n (it # later) = ([], Crashed)" for n by simp
  then have "attempt c p a = (map (client_packet c) (concat (map (responses p) its)), Crashed)"
    using read_loop_undisturbed [of its c p 0 "it # later"] assms(3-5) by (simp add: attempt_def)
  then have "retryFn (retry c) 0 (attempt c p) (a # env) =
      (1, map (client_packet c) (concat (map (responses p) its)), Crashed)"
    using assms(2) by auto
  with assms(1) show ?thesis by (simp add: sendAndRead_def del: retryFn.simps)
qed

text \<open>
  \<open>DiscoverOffer\<close> returns only Offers with the transaction that \<open>macToID\<close> derives from the hardware
  address, that is its last four bytes in reverse, read from the connection during the exchange.
\<close>

lemma DiscoverOffer_sound:
  assumes "DiscoverOffer c env = Returns (Some (Inr offer))"
  shows "GetDHCPMessageType (Opts offer) = DHCPOffer \<and>
    TransactionID offer = take 4 (rev (mac_of c)) \<and>
    (\<exists>a \<in> set env. \<exists>it \<in> set (iterations a). \<exists>b. answer it = ReadData b \<and> ParsePacket (take 1500 b) = Inr offer)"
proof -
  obtain p x where p: "DiscoverPacket c = Returns p" and x: "SimpleSendAndRead c DefaultServers p env = Returns x"
    and f: "(case find is_offer (out x) of Some packet \<Rightarrow> Some (Inr (cp_Packet packet))
      | None \<Rightarrow> channel_error DidntGetPacket x) = Some (Inr offer)"
    using assms by (auto simp: DiscoverOffer_def outcome_simps)
  obtain ds outs res where s: "sendAndRead c DefaultServers p env = Returns (ds, outs, res)" "out x = outs"
    using x by (auto simp: SimpleSendAndRead_def SendAndRead_def outcome_simps)
  obtain cp where cp: "find is_offer (out x) = Some cp" "offer = cp_Packet cp"
    using f by (auto simp: channel_error_def split: option.splits if_splits list.splits)
  then have mem: "cp \<in> set outs" "is_offer cp" using s(2) by (auto simp: find_Some_iff)
  have tx: "TransactionID p = take 4 (rev (mac_of c))"
    using p by (auto simp: DiscoverPacket_eq discover_packet_def split: if_splits)
  from sendAndRead_responses [OF s(1) mem(1)] mem(2) cp(2) tx show ?thesis
    by (metis ClientPacket.select_convs(2) client_packet_def is_offer_def)
qed

end
