(* ===== verification/ConnOpen.thy ===== *)
theory ConnOpen
  imports Client
begin

text \<open>
  The two constructors of \<^verbatim>\<open>dhcp4client/conn_linux.go\<close> that open a connection. The operating system is
  the environment: it answers every call with success or an error. A constructor yields the calls
  it made, in order, and its result.
\<close>

section \<open>A bound datagram socket\<close>

datatype syscall =
    Socket
  | SetBroadcast nat
  | SetReuseAddr nat
  | BindToDevice nat "byte list"
  | Bind nat nat
  | FilePacketConn nat
  | CloseFile nat

text \<open>
  A call whose error ends the constructor, followed by the rest of the constructor, and a call that
  is deferred until the constructor returns.
\<close>

type_synonym 'a calls = "syscall list \<times> (go_error + 'a)"

definition checked :: "(syscall \<Rightarrow> go_error option) \<Rightarrow> syscall \<Rightarrow> 'a calls \<Rightarrow> 'a calls" where
  "checked sys c rest = (case sys c of
     Some e \<Rightarrow> ([c], Inl e)
   | None \<Rightarrow> (c # fst rest, snd rest))"

definition deferred :: "syscall \<Rightarrow> 'a calls \<Rightarrow> 'a calls" where
  "deferred c body = (fst body @ [c], snd body)"

text \<open>The socket that \<^verbatim>\<open>net.FilePacketConn\<close> makes of the file: what it is bound to.\<close>

record udp_socket =
  sock_device :: "byte list"
  sock_port :: nat

definition NewIPv4UDPConn ::
  "(syscall \<Rightarrow> go_error option) \<Rightarrow> nat \<Rightarrow> byte list \<Rightarrow> nat \<Rightarrow> udp_socket calls" where
  "NewIPv4UDPConn sys fd ifname port =
     checked sys Socket
       (deferred (CloseFile fd)
         (checked sys (SetBroadcast fd)
           (checked sys (SetReuseAddr fd)
             (checked sys (BindToDevice fd ifname)
               (checked sys (Bind fd port)
                 (checked sys (FilePacketConn fd)
                   ([], Inr \<lparr>sock_device = ifname, sock_port = port\<rparr>)))))))"

section \<open>A raw packet socket\<close>

definition EtherTypeIPv4 :: u16 where "EtherTypeIPv4 = 0x0800"

text \<open>
  \<open>by_name\<close> is the answer of \<^verbatim>\<open>net.InterfaceByName\<close>, an interface index or an error; \<open>listen\<close> that of
  \<^verbatim>\<open>raw.ListenPacket\<close> for an interface, a protocol and the flag \<^verbatim>\<open>LinuxSockDGRAM\<close>, a raw connection or an error.
\<close>

definition NewPacketUDPConn ::
  "(byte list \<Rightarrow> go_error + nat) \<Rightarrow> (nat \<Rightarrow> u16 \<Rightarrow> bool \<Rightarrow> go_error + 'r) \<Rightarrow>
    byte list \<Rightarrow> nat \<Rightarrow> go_error + 'r UDPPacketConn" where
  "NewPacketUDPConn by_name listen ifname port = (case by_name ifname of
     Inl e \<Rightarrow> Inl e
   | Inr ifc \<Rightarrow> (case listen ifc EtherTypeIPv4 True of
       Inl e \<Rightarrow> Inl e
     | Inr rawConn \<Rightarrow> Inr (NewBroadcastUDPConn rawConn (Some (None, port)))))"

section \<open>What the calls come to\<close>

text \<open>The first call of a sequence that fails, after the ones before it.\<close>

fun until_failure :: "(syscall \<Rightarrow> go_error option) \<Rightarrow> syscall list \<Rightarrow> syscall list \<times> go_error option" where
  "until_failure sys [] = ([], None)"
| "until_failure sys (c # cs) = (case sys c of
     Some e \<Rightarrow> ([c], Some e)
   | None \<Rightarrow> (case until_failure sys cs of (done, r) \<Rightarrow> (c # done, r)))"

definition setup_calls :: "nat \<Rightarrow> byte list \<Rightarrow> nat \<Rightarrow> syscall list" where
  "setup_calls fd ifname port =
     [SetBroadcast fd, SetReuseAddr fd, BindToDevice fd ifname, Bind fd port, FilePacketConn fd]"

lemma until_failure_success: "snd (until_failure sys cs) = None \<longleftrightarrow> (\<forall>c \<in> set cs. sys c = None)"
  by (induction cs) (auto split: option.splits prod.splits)

lemma until_failure_all: "snd (until_failure sys cs) = None \<Longrightarrow> fst (until_failure sys cs) = cs"
  by (induction cs) (auto split: option.splits prod.splits)

lemma NewIPv4UDPConn_calls:
  assumes "sys Socket = None"
  shows "NewIPv4UDPConn sys fd ifname port = (case until_failure sys (setup_calls fd ifname port) of (done, e) \<Rightarrow>
    (Socket # done @ [CloseFile fd],
      case e of Some e \<Rightarrow> Inl e | None \<Rightarrow> Inr \<lparr>sock_device = ifname, sock_port = port\<rparr>))"
  using assms by (simp add: NewIPv4UDPConn_def setup_calls_def checked_def deferred_def split: option.split)

section \<open>Properties\<close>

text \<open>
  C35. Opening a socket leaks nothing and hides no error: if the socket cannot be created, that error
  is returned and no further call is made; otherwise the set-up calls are made in order up to the
  first failure, whose error is returned, and on every path the file is closed exactly once, as the
  last call. The result is a connection, bound to the interface and the port, exactly if every
  call succeeded.
\<close>

theorem NewIPv4UDPConn_closes:
  "case NewIPv4UDPConn sys fd ifname port of (calls, r) \<Rightarrow>
    if sys Socket \<noteq> None then calls = [Socket] \<and> r = Inl (the (sys Socket))
    else count_list calls (CloseFile fd) = 1 \<and> last calls = CloseFile fd \<and>
      calls = Socket # fst (until_failure sys (setup_calls fd ifname port)) @ [CloseFile fd] \<and>
      (if sys (SetBroadcast fd) = None \<and> sys (SetReuseAddr fd) = None \<and> sys (BindToDevice fd ifname) = None \<and>
          sys (Bind fd port) = None \<and> sys (FilePacketConn fd) = None
       then r = Inr \<lparr>sock_device = ifname, sock_port = port\<rparr>
       else \<exists>e. r = Inl e \<and> sys (last (butlast calls)) = Some e)"
proof (cases "sys Socket")
  case None
  show ?thesis
    unfolding NewIPv4UDPConn_calls [of sys, OF None] setup_calls_def
    by (simp add: None split: option.split)
qed (simp add: NewIPv4UDPConn_def checked_def)

text \<open>
  C34. A client created without a connection of its own listens on its interface and hears exactly its port: if \<open>New\<close>
  succeeds, the interface is not nil, and the client's connection is built on the raw connection that the system
  opened for IPv4 frames on the interface of that name; of the frames that connections of this package write, it delivers
  those to port 68, whatever their address, with their payload, and skips all others. If looking up that name or
  opening that interface fails, \<open>New\<close> returns the error.
\<close>

theorem default_client_hears:
  fixes listen :: "nat \<Rightarrow> u16 \<Rightarrow> bool \<Rightarrow> go_error + 'r"
  assumes "Client_New (NewPacketUDPConn by_name listen) link [] = Returns r"
    and "boundAddr sender = Some (s, sp)" and "dp < 65536" and "length packet \<le> length b"
  shows "\<exists>attrs. link = Some attrs \<and> (case by_name (link_name attrs) of
      Inl e \<Rightarrow> r = Inl e
    | Inr ifc \<Rightarrow> (case listen ifc 0x0800 True of
        Inl e \<Rightarrow> r = Inl e
      | Inr rawConn \<Rightarrow> \<exists>c upc frame. r = Inr c \<and> iface c = link \<and> conn c = Some upc \<and> PacketConn upc = rawConn \<and>
          WriteTo wres sender packet (UDPAddr d dp) = Returns (Some (frame, BroadcastMac), wres) \<and>
          ReadFrom upc b [RawPacket frame] = Returns (if dp = 68
            then Some (Inr (packet @ drop (length packet) b, length packet, (Some (ip4_bytes d), dp)), []) else None)))"
proof -
  obtain attrs where l: "link = Some attrs" using assms(1) by (cases link) (auto simp: Client_New_def)
  obtain frame where f: "WriteTo wres sender packet (UDPAddr d dp) = Returns (Some (frame, BroadcastMac), wres)"
    "\<And>receiver :: 'r UDPPacketConn. read_raw receiver b frame = Returns (if udpMatch (Some (ip4_bytes d), dp) (boundAddr receiver)
      then Some (packet @ drop (length packet) b, length packet, (Some (ip4_bytes d), dp)) else None)"
    by (rule WriteTo_frame [OF assms(2-4), of wres d]) blast
  have "udpMatch (Some (ip4_bytes d), dp) (boundAddr (NewBroadcastUDPConn rc (Some (None, 68)))) \<longleftrightarrow> dp = 68" for rc :: 'r
    by (auto simp: udpMatch_def NewBroadcastUDPConn_def)
  with f have "ReadFrom (NewBroadcastUDPConn rc (Some (None, 68))) b [RawPacket frame] = Returns (if dp = 68
      then Some (Inr (packet @ drop (length packet) b, length packet, (Some (ip4_bytes d), dp)), []) else None)" for rc :: 'r
    by simp
  with l f(1) assms(1) show ?thesis
    by (auto simp: Client_New_def NewPacketUDPConn_def ClientPort_def EtherTypeIPv4_def NewBroadcastUDPConn_def
        split: sum.splits)
qed

theorem default_client_hears_witness:
  "\<exists>c upc frame. Client_New (NewPacketUDPConn (\<lambda>name. if name = [101] then Inr 3 else Inl DidntGetPacket)
      (\<lambda>ifc proto dgram. Inr (ifc, proto, dgram)))
      (Some \<lparr>link_name = [101], HardwareAddr = [2, 0, 0, 0, 0, 7]\<rparr>) [] = Returns (Inr c) \<and>
    conn c = Some upc \<and> PacketConn upc = (3, 0x0800, True) \<and>
    WriteTo (29, None) (NewBroadcastUDPConn () (Some (None, 67))) [5] (UDPAddr IPv4bcast 68) =
      Returns (Some (frame, BroadcastMac), 29, None) \<and>
    ReadFrom upc (zeros 1) [RawPacket frame] = Returns (Some (Inr ([5], 1, (Some (ip4_bytes IPv4bcast), 68)), []))"
proof -
  obtain c where c: "Client_New (NewPacketUDPConn (\<lambda>name. if name = [101] then Inr 3 else Inl DidntGetPacket)
      (\<lambda>ifc proto dgram. Inr (ifc, proto, dgram)))
      (Some \<lparr>link_name = [101], HardwareAddr = [2, 0, 0, 0, 0, 7]\<rparr>) [] = Returns (Inr c)"
    by (simp add: Client_New_def NewPacketUDPConn_def)
  have b: "boundAddr (NewBroadcastUDPConn () (Some (None, 67))) = Some (None, 67)" by (simp add: NewBroadcastUDPConn_def)
  from default_client_hears [OF c b, of 68 "[5]" "zeros 1" "(29, None)" IPv4bcast] c show ?thesis
    by (auto simp: zeros_def)
qed

end
