(* ===== verification/Network.thy ===== *)
theory Network
  imports Command ConnOpen
begin

text \<open>
  The client and the server on one network: the client writes and reads frames through its raw
  connection, the server runs on a host whose operating system turns datagrams into frames and arriving frames
  into datagrams for the port it listens on. What is relied on of that system is the locale \<open>udp_host\<close>; the framing
  of this repository, \<open>udp4pkt\<close>, with a receiver that verifies and filters, is an instance of it.
\<close>

section \<open>Frames\<close>

text \<open>The sender of a UDP packet, and what it means that a frame carries a payload to an address.\<close>

definition source_of :: "byte list \<Rightarrow> udp_addr" where
  "source_of p = (Some (take 4 (drop 12 p)), unat (Uint16_of BigEndian (take 2 (drop (announced p) p))))"

definition carries :: "byte list \<Rightarrow> byte list \<Rightarrow> byte list \<Rightarrow> nat \<Rightarrow> bool" where
  "carries p payload ip port \<longleftrightarrow> readable p \<and> p ! 9 = 17 \<and> payload_of p = payload \<and>
     take 4 (drop 16 p) = ip \<and> unat (Uint16_of BigEndian (take 2 (drop (announced p + 2) p))) = port"

text \<open>
  What a receiver checks of a frame (RFC 791, RFC 768, RFC 1122): version 4, a complete header, the total length,
  protocol 17, the UDP length, and that the header and the UDP packet with its pseudo-header sum up to all ones;
  and which frames a host with address \<open>own\<close> hands to the socket bound to a port of all its addresses.
\<close>

definition verifies :: "byte list \<Rightarrow> bool" where
  "verifies buf \<longleftrightarrow> ones_sum (words_sum buf) = 65535"

definition intact :: "byte list \<Rightarrow> bool" where
  "intact f \<longleftrightarrow> (let n = announced f; udp = drop n f in
     20 \<le> n \<and> n + 8 \<le> length f \<and> drop_bit 4 (f ! 0) = 4 \<and> word_at 2 f = of_nat (length f) \<and> f ! 9 = 17 \<and>
     word_at 4 udp = of_nat (length udp) \<and> verifies (take n f) \<and>
     verifies (udp_checked (take 4 (drop 12 f)) (take 4 (drop 16 f)) (of_nat (length udp)) udp))"

definition addressed :: "byte list \<Rightarrow> nat \<Rightarrow> byte list \<Rightarrow> bool" where
  "addressed own port f \<longleftrightarrow> take 4 (drop 16 f) \<in> {own, [255, 255, 255, 255]} \<and>
     unat (word_at (announced f + 2) f) = port"

text \<open>
  The host of a UDP server: \<open>host_recv\<close> is what its operating system makes of an arriving frame, the payload and
  the sender for the socket or nothing; \<open>host_frame\<close> is the frame it sends for a datagram.
\<close>

locale udp_host =
  fixes host_recv :: "byte list \<Rightarrow> (byte list \<times> udp_addr) option" and host_frame :: "byte list \<Rightarrow> udp_addr \<Rightarrow> byte list"
    and own :: "byte list" and port :: nat
  assumes host_frame_carries: "length payload \<le> 1472 \<Longrightarrow> dport < 65536 \<Longrightarrow>
      carries (host_frame payload (ip, dport)) payload (ip4_bytes ip) dport"
    and host_recv_delivers: "intact f \<Longrightarrow> addressed own port f \<Longrightarrow> host_recv f = Some (payload_of f, source_of f)"
    and host_recv_drops: "\<not> addressed own port f \<Longrightarrow> host_recv f = None"

lemma announced_words: "announced p = 4 * unat (p ! 0 AND 15)" "unat (p ! 0 AND 15) \<le> 15"
proof -
  have "p ! 0 AND 15 \<le> 15" by (rule word_and_le1)
  then show "unat (p ! 0 AND 15) \<le> 15" by (simp add: word_le_nat_alt)
  then show "announced p = 4 * unat (p ! 0 AND 15)" by (simp add: announced_def unat_word_ariths)
qed

lemma carries_length:
  assumes "carries p payload ip port"
  shows "length p \<le> 68 + length payload" and "20 \<le> length p"
proof -
  have p: "announced p + 8 \<le> length p" "10 \<le> announced p" "payload = drop (announced p + 8) p"
    using assms by (auto simp: carries_def readable_def payload_of_def)
  then show "length p \<le> 68 + length payload" using announced_words [of p] by simp
  from p(1,2) announced_words(1) [of p] show "20 \<le> length p" by presburger
qed

text \<open>A raw connection delivers the payload of a frame to its bound address.\<close>

lemma read_raw_carries:
  assumes "carries p payload ip port" and "length payload \<le> length b"
  shows "read_raw upc b p = Returns (if udpMatch (Some ip, port) (boundAddr upc)
    then Some (payload @ drop (length payload) b, length payload, (Some ip, port)) else None)"
proof -
  note l = carries_length [OF assms(1)]
  have fit: "fitting b p = p" using l assms(2) by (simp add: fitting_def)
  have "dest_of b p = (Some ip, port)" using assms(1) l by (simp add: dest_of_def carries_def)
  moreover have "go_copy b payload = payload @ drop (length payload) b" "go_copied b payload = length payload"
    using assms(2) by (simp_all add: go_copy_def go_copied_def)
  ultimately show ?thesis using assms(1) by (simp add: read_raw_eq fit carries_def)
qed

lemma frame_carries:
  fixes packet :: "byte list" and tlen c l c' :: u16
  assumes "length s = 4" and "length d = 4" and "sp < 65536" and "dp < 65536"
  defines "p \<equiv> ipv4_header tlen s d c @ udp_header (of_nat sp) (of_nat dp) l c' @ packet"
  shows "carries p packet d dp" and "source_of p = (Some s, sp)"
proof -
  note f = frame_fields [OF assms(1,2), where tlen = tlen and c = c and sp = "of_nat sp" and dp = "of_nat dp"
      and l = l and c' = c' and packet = packet, folded p_def]
  have "take 4 (drop 16 p) = d" "take 4 (drop 12 p) = s" "take 2 (drop 20 p) = be16 (of_nat sp)"
    "take 2 (drop 22 p) = be16 (of_nat dp)"
    using assms(1,2) by (simp_all add: p_def ipv4_header_def udp_header_def be16_def)
  with f assms(3,4) show "carries p packet d dp" "source_of p = (Some s, sp)"
    by (simp_all add: carries_def source_of_def Uint16_of_def in_order_def word_of_be_be16 unat_of_nat)
qed

text \<open>The frames of this repository arrive intact at any receiver.\<close>

lemma verifies_Checksum: "length buf \<le> 131068 \<Longrightarrow> Checksum buf 0 = 65535 \<Longrightarrow> verifies buf"
  using unat_Checksum [of buf 0] by (simp add: verifies_def)

lemma udp4pkt_intact:
  assumes "length packet \<le> 65507" and "sp < 65536" and "dp < 65536"
  obtains f where "udp4pkt packet (d, dp) (Some (s, sp)) = Returns f" and "intact f"
    and "carries f packet (ip4_bytes d) dp" and "source_of f = (Some (ip4_bytes s), sp)"
proof -
  let ?s = "ip4_bytes s" and ?d = "ip4_bytes d"
  define tlen ulen :: u16 where "tlen = of_nat (28 + length packet)" and "ulen = of_nat (8 + length packet)"
  define h where "h = ipv4_header tlen ?s ?d (ipv4_sum tlen ?s ?d)"
  define u where "u = udp_header (of_nat sp) (of_nat dp) ulen (udp_sum s d (of_nat sp) (of_nat dp) ulen packet) @ packet"
  have f: "udp4pkt packet (d, dp) (Some (s, sp)) = Returns (h @ u)"
    by (simp add: udp4pkt_eq Let_def h_def u_def tlen_def ulen_def)
  have len: "length h = 20" "length u = 8 + length packet" by (simp_all add: h_def u_def)
  have h: "h ! 0 = 69" "h ! 9 = 17" "take 2 (drop 2 h) = be16 tlen" "take 4 (drop 12 h) = ?s" "take 4 (drop 16 h) = ?d"
    by (simp_all add: h_def ipv4_header_def be16_def)
  have u: "take 2 (drop 4 u) = be16 ulen" by (simp add: u_def udp_header_def be16_def)
  have at: "(h @ u) ! 0 = 69" "(h @ u) ! 9 = 17" using h len by (simp_all add: nth_append)
  then have ann: "announced (h @ u) = 20" by (simp add: announced_def)
  have v: "verifies h" "verifies (udp_checked ?s ?d ulen u)"
    using ipv4_sum_verifies [of ?s ?d tlen] udp_sum_verifies [OF assms(1), of s d ulen "of_nat sp" "of_nat dp"] len assms(1)
    by (auto intro!: verifies_Checksum simp: h_def u_def udp_checked_def)
  have "intact (h @ u)"
    unfolding intact_def Let_def ann word_at_def
    using len h u v at by (simp add: Uint16_of_def in_order_def word_of_be_be16 tlen_def ulen_def)
  with that f frame_carries [of ?s ?d sp dp tlen "ipv4_sum tlen ?s ?d" ulen _ packet] assms(2,3)
  show ?thesis by (simp add: h_def u_def)
qed

text \<open>The framing of this repository with a given sender, and a host that delivers what is intact and for it.\<close>

definition udp4_host :: "net_IP \<Rightarrow> nat \<Rightarrow> byte list \<Rightarrow> udp_addr \<Rightarrow> byte list" where
  "udp4_host ip port payload dest = (case udp4pkt payload dest (Some (ip, port)) of Returns f \<Rightarrow> f | _ \<Rightarrow> [])"

definition udp4_recv :: "byte list \<Rightarrow> nat \<Rightarrow> byte list \<Rightarrow> (byte list \<times> udp_addr) option" where
  "udp4_recv own port f = (if intact f \<and> addressed own port f then Some (payload_of f, source_of f) else None)"

interpretation own_framing: udp_host "udp4_recv own port" "udp4_host ip (sport mod 65536)" own port
  by unfold_locales (simp_all add: udp4_recv_def udp4_host_def udp4pkt_eq Let_def frame_carries(1))

section \<open>Reading and writing frames\<close>

text \<open>
  The answers that the read loop of the client gets from its connection while the given frames
  arrive, one per call of \<open>ReadFrom\<close>; no deadline expires.
\<close>

fun answer_of :: "read_result \<Rightarrow> read_answer" where
  "answer_of (Inl e) = ReadFailed e"
| "answer_of (Inr (b, n, addr)) = ReadData (take n b)"

definition plain_iteration :: "read_answer \<Rightarrow> iteration" where
  "plain_iteration r = \<lparr>done_err = None, answer = r, send_err = None\<rparr>"

lemma ReadFrom_consumes: "ReadFrom upc b raws = Returns (Some (r, rest)) \<Longrightarrow> length rest < length raws"
proof (induction raws)
  case (Cons raw raws)
  show ?case
  proof (cases raw)
    case (RawPacket p)
    with Cons obtain x where x: "read_raw upc b p = Returns x" by (auto simp: outcome_simps)
    show ?thesis
    proof (cases x)
      case None
      with Cons.prems RawPacket x have "ReadFrom upc b raws = Returns (Some (r, rest))" by simp
      with Cons.IH show ?thesis by simp
    next
      case (Some y)
      with Cons.prems RawPacket x show ?thesis by simp
    qed
  next
    case (RawError e)
    with Cons.prems show ?thesis by simp
  qed
qed simp

lemma obind_cong [fundef_cong]:
  "m = m' \<Longrightarrow> (\<And>x. m' = Returns x \<Longrightarrow> f x = g x) \<Longrightarrow> obind m f = obind m' g"
  by (cases m') auto

function polls :: "'r UDPPacketConn \<Rightarrow> raw_input list \<Rightarrow> iteration list outcome" where
  "polls upc raws = obind (ReadFrom upc (zeros 1500) raws) (\<lambda>r. case r of
     None \<Rightarrow> Returns []
   | Some (res, rest) \<Rightarrow> obind (polls upc rest) (\<lambda>its. Returns (plain_iteration (answer_of res) # its)))"
  by pat_completeness auto
termination by (relation "measure (\<lambda>(_, raws). length raws)") (auto dest: ReadFrom_consumes)

declare polls.simps [simp del]

lemma polls_Nil: "polls upc [] = Returns []"
  by (subst polls.simps) simp

lemma polls_skip: "read_raw upc (zeros 1500) raw = Returns None \<Longrightarrow> polls upc (RawPacket raw # raws) = polls upc raws"
  by (simp add: polls.simps [of upc "RawPacket raw # raws"] polls.simps [of upc raws])

lemma polls_read:
  "read_raw upc (zeros 1500) raw = Returns (Some (b, n, addr)) \<Longrightarrow> polls upc (RawPacket raw # raws) =
    obind (polls upc raws) (\<lambda>its. Returns (plain_iteration (ReadData (take n b)) # its))"
  by (simp add: polls.simps [of upc "RawPacket raw # raws"])

text \<open>
  Traffic that does not disturb an exchange: frames that can be read, and of which no one for the
  bound address holds a response to the transaction.
\<close>

definition quiet :: "'r UDPPacketConn \<Rightarrow> byte list \<Rightarrow> byte list \<Rightarrow> bool" where
  "quiet upc txid raw \<longleftrightarrow> (let p = fitting (zeros 1500) raw in readable p \<and>
     (p ! 9 = 17 \<longrightarrow> udpMatch (dest_of (zeros 1500) p) (boundAddr upc) \<longrightarrow>
       (\<forall>pkt. ParsePacket (take 1500 (payload_of p)) = Inr pkt \<longrightarrow> TransactionID pkt \<noteq> txid)))"

lemma polls_quiet:
  assumes "\<And>raw. raw \<in> set noise \<Longrightarrow> quiet upc (TransactionID p) raw"
    and "iface c \<noteq> None"
  shows "\<exists>its. polls upc (map RawPacket noise @ raws) = obind (polls upc raws) (\<lambda>more_its. Returns (its @ more_its)) \<and>
    (\<forall>i \<in> set its. undisturbed c p i \<and> responses p i = [])"
  using assms
proof (induction noise)
  case Nil
  show ?case by (intro exI [of _ "[]"]) simp
next
  case (Cons raw noise)
  then obtain its where its: "polls upc (map RawPacket noise @ raws) = obind (polls upc raws) (\<lambda>more_its. Returns (its @ more_its))"
    "\<forall>i \<in> set its. undisturbed c p i \<and> responses p i = []" by auto
  let ?f = "fitting (zeros 1500) raw"
  have q: "quiet upc (TransactionID p) raw" using Cons.prems by simp
  show ?case
  proof (cases "?f ! 9 = 17 \<and> udpMatch (dest_of (zeros 1500) ?f) (boundAddr upc)")
    case True
    let ?it = "plain_iteration (ReadData (take 1500 (payload_of ?f)))"
    have "take (go_copied (zeros 1500) (payload_of ?f)) (go_copy (zeros 1500) (payload_of ?f)) = take 1500 (payload_of ?f)"
      by (simp add: go_copied_def go_copy_def min_def)
    moreover have "read_raw upc (zeros 1500) raw = Returns (Some (go_copy (zeros 1500) (payload_of ?f),
        go_copied (zeros 1500) (payload_of ?f), dest_of (zeros 1500) ?f))"
      using True q by (simp add: read_raw_eq quiet_def Let_def)
    ultimately have "polls upc (RawPacket raw # map RawPacket noise @ raws) =
        obind (polls upc (map RawPacket noise @ raws)) (\<lambda>its. Returns (?it # its))"
      by (simp only: polls_read)
    moreover have "undisturbed c p ?it" "responses p ?it = []"
      using True q assms(2) by (auto simp: undisturbed_def plain_iteration_def responses_def quiet_def Let_def split: sum.split)
    ultimately show ?thesis using its by (intro exI [of _ "?it # its"]) simp
  next
    case False
    then have "polls upc (RawPacket raw # map RawPacket noise @ raws) = polls upc (map RawPacket noise @ raws)"
      using q by (intro polls_skip) (auto simp: read_raw_eq quiet_def Let_def)
    with its show ?thesis by auto
  qed
qed

text \<open>The client's connection, the attempt that sees the given frames, and the frame of a packet.\<close>

definition attempt_on :: "'r UDPPacketConn \<Rightarrow> raw_input list \<Rightarrow> attempt_env outcome" where
  "attempt_on upc raws = obind (polls upc raws) (\<lambda>its. Returns \<lparr>write_err = None, iterations = its\<rparr>)"

definition frame_for :: "'r UDPPacketConn \<Rightarrow> byte list \<Rightarrow> byte list outcome" where
  "frame_for upc pkt = obind (WriteTo (0, None) upc pkt (UDPAddr (fst DefaultServers) (snd DefaultServers)))
     (\<lambda>(f, _). Returns (case f of None \<Rightarrow> [] | Some (frame, _) \<Rightarrow> frame))"

lemma attempt_on_answered:
  assumes "\<And>raw. raw \<in> set noise \<Longrightarrow> quiet upc (TransactionID p) raw"
    and "carries f payload ip ClientPort" and "boundAddr upc = Some (None, ClientPort)" and "length payload \<le> 1500"
    and "iface c \<noteq> None"
  shows "\<exists>env. attempt_on upc (map RawPacket noise @ [RawPacket f]) = Returns env \<and> answered c p payload env"
proof -
  have "read_raw upc (zeros 1500) f = Returns (Some (payload @ drop (length payload) (zeros 1500), length payload, (Some ip, ClientPort)))"
    using read_raw_carries [OF assms(2), of "zeros 1500" upc] assms(3,4) by (simp add: udpMatch_def)
  from polls_read [OF this, of "[]"] have "polls upc [RawPacket f] = Returns [plain_iteration (ReadData payload)]"
    by (simp add: polls_Nil)
  with polls_quiet [of noise upc p c "[RawPacket f]", OF assms(1,5)] obtain its where
    "polls upc (map RawPacket noise @ [RawPacket f]) = Returns (its @ [plain_iteration (ReadData payload)])"
    "\<forall>i \<in> set its. undisturbed c p i \<and> responses p i = []" by auto
  moreover from this(2) have "answered c p payload \<lparr>write_err = None, iterations = its @ [plain_iteration (ReadData payload)]\<rparr>"
    unfolding answered_def plain_iteration_def
    by (intro conjI exI [of _ its] exI [of _ "[]"]) (simp_all add: assms(5))
  ultimately show ?thesis by (simp add: attempt_on_def)
qed

lemma frame_for_served:
  assumes "boundAddr upc = Some (None, ClientPort)" and "length pkt \<le> 1500"
  shows "\<exists>f. frame_for upc pkt = Returns f \<and> intact f \<and> addressed own listen_port f \<and>
    payload_of f = pkt \<and> source_of f = (Some [0, 0, 0, 0], ClientPort)"
proof -
  have p: "length pkt \<le> 65507" "ClientPort < 65536" "ServerPort < 65536"
    using assms(2) by (simp_all add: ServerPort_def ClientPort_def)
  obtain f where f: "udp4pkt pkt (IPv4bcast, ServerPort) (Some (None, ClientPort)) = Returns f" "intact f"
    "carries f pkt (ip4_bytes IPv4bcast) ServerPort" "source_of f = (Some (ip4_bytes None), ClientPort)"
    by (rule udp4pkt_intact [OF p])
  have "ip4_bytes None = [0, 0, 0, 0]" "ip4_bytes IPv4bcast = [255, 255, 255, 255]"
    by (simp_all add: ip4_bytes_def IPv4bcast_def net_IPv4_def To4_mapped)
  with f assms(1) show ?thesis
    by (simp add: frame_for_def WriteTo_def DefaultServers_def carries_def addressed_def word_at_def listen_port_def
        ServerPort_def)
qed

section \<open>The handshake, datagram by datagram\<close>

definition is_some4 :: "net_IP \<Rightarrow> bool" where
  "is_some4 ip \<longleftrightarrow> (\<exists>b. ip = Some b \<and> length b = 4)"

text \<open>The first half: the answer to a Discover is an Offer of the address that the client then holds.\<close>

lemma offer_received:
  assumes "server_inv s" and "config_ok s" and "4 \<le> length mac" and "length mac \<le> 16"
    and "serve_one s (Received (packet_bytes (discover_packet mac)) (UDPAddr a port) None) =
      Returns (s1, Some (obs, oaddr), None)"
  obtains offer yi where "server_inv s1" and "config_ok s1" and "getIP s1 mac = Some yi" and "length yi = 4"
    and "ParsePacket (take 1500 obs) = Inr offer" and "TransactionID offer = TransactionID (discover_packet mac)"
    and "GetDHCPMessageType (Opts offer) = DHCPOffer" and "YIAddr offer = Some yi" and "is_some4 (SIAddr offer)"
proof -
  let ?d = "canonical (discover_packet mac)"
  have pd: "ParsePacket (take maxMessageSize (packet_bytes (discover_packet mac))) = Inr ?d"
    using discover_received(1) [OF assms(3,4)] by (simp add: maxMessageSize_def)
  note rd = ParsePacket_received [OF pd]
  have fd: "GetDHCPMessageType (Opts ?d) = DHCPDiscover" "CHAddr ?d = mac" "TransactionID ?d = TransactionID (discover_packet mac)"
    by (simp_all add: canonical_def discover_packet_def drop_empty_def GetDHCPMessageType_eq)
  have sp: "serve_packet s ?d (UDPAddr a port) None = Returns (s1, Some (obs, oaddr), None)"
    using assms(5) pd by (simp add: serve_one_def)
  note as = discover_assigns [OF assms(1,2) rd fd(1) sp]
  from serve_packet_inv [OF assms(1,2) rd sp] assms(2) have s1: "server_inv s1" "config_ok s1"
    by (auto simp: config_ok_same)
  obtain yi where yi: "getIP s1 mac = Some yi" using as fd(2) by (auto split: if_splits)
  have l: "length yi = 4" using getIP_4 [OF s1(1), of mac] yi by simp
  from as yi fd(2) have "send_reply (UDPAddr a port) None (reply_packet s ?d DHCPOffer None (Some yi)) = (Some (obs, oaddr), None)"
    by auto
  from reply_received [OF assms(2) rd _ _ this] l obtain offer where
    "ParsePacket (take 1500 obs) = Inr offer" "answers s ?d offer DHCPOffer (Some yi)"
    by (auto simp: field_of_lease)
  with that s1 yi l fd(3) assms(2) show ?thesis by (auto simp: answers_def config_ok_def is_some4_def)
qed

text \<open>The second half: the Request for the leased address is answered by an ACK for it.\<close>

lemma request_acked:
  assumes "server_inv s" and "config_ok s" and "length mac \<le> 16" and "getIP s mac = Some yi" and "length yi = 4"
    and "received_packet offer" and "is_some4 (SIAddr offer)"
  defines "req \<equiv> request_packet mac offer yi"
  obtains bs ack where "encodable req" and "length (packet_bytes req) \<le> 1500" and "length bs = 254"
    and "serve_one s (Received (packet_bytes req) (UDPAddr a port) None) =
      Returns (s, Some (bs, reply_addr (UDPAddr a port)), None)"
    and "ParsePacket (take 1500 bs) = Inr ack" and "TransactionID ack = TransactionID req"
    and "GetDHCPMessageType (Opts ack) = DHCPACK" and "YIAddr ack = Some yi"
proof -
  obtain ci si where ip: "CIAddr offer = Some ci" "length ci = 4" "SIAddr offer = Some si" "length si = 4"
    using assms(6,7) by (auto simp: received_packet_def is_some4_def)
  have "wf_packet offer" using assms(6) by (simp add: received_packet_def)
  note req = request_received [OF assms(3,5) this ip, folded req_def]
  have pr: "ParsePacket (take maxMessageSize (packet_bytes req)) = Inr (canonical req)"
    using req(2) by (simp add: maxMessageSize_def)
  note rr = ParsePacket_received [OF pr]
  obtain cr where cr: "CIAddr (canonical req) = Some cr" "length cr = 4" using rr by (auto simp: received_packet_def)
  let ?ack = "reply_packet s (canonical req) DHCPACK (CIAddr (canonical req)) (Some yi)"
  have reply: "send_reply (UDPAddr a port) None ?ack = (Some (packet_bytes ?ack, reply_addr (UDPAddr a port)), None)"
    by (simp add: send_reply_def)
  have one: "serve_one s (Received (packet_bytes req) (UDPAddr a port) None) =
      Returns (s, Some (packet_bytes ?ack, reply_addr (UDPAddr a port)), None)"
    using pr request_replies [OF assms(1,2) rr req(3), of "UDPAddr a port" None] req(4,5) assms(4) reply
    by (simp add: serve_one_def)
  have len: "length (packet_bytes ?ack) = 254" using reply_size [OF assms(2) rr] cr assms(5) by simp
  from reply_received [OF assms(2) rr _ _ reply] cr assms(5) obtain ack where
    "ParsePacket (take 1500 (packet_bytes ?ack)) = Inr ack" "answers s (canonical req) ack DHCPACK (Some yi)"
    by (auto simp: field_of_lease)
  with that [OF req(1,6) len one] show ?thesis by (auto simp: answers_def canonical_def)
qed

lemma handshake_steps:
  assumes "server_inv s" and "config_ok s"
    and "4 \<le> length (mac_of c)" and "length (mac_of c) \<le> 16" and "retry c \<noteq> 0"
    and "serve_one s (Received (packet_bytes (discover_packet (mac_of c))) (UDPAddr a port) None) =
      Returns (s1, Some (obs, oaddr), None)"
    and "answered c (discover_packet (mac_of c)) obs env1"
  obtains offer req bs where "DiscoverOffer c [env1] = Returns (Some (Inr offer))"
    and "RequestPacket c offer = Returns req" and "encodable req" and "length (packet_bytes req) \<le> 1500"
    and "TransactionID req = TransactionID (discover_packet (mac_of c))" and "length bs = 254"
    and "serve_one s1 (Received (packet_bytes req) (UDPAddr a port) None) =
      Returns (s1, Some (bs, reply_addr (UDPAddr a port)), None)"
    and "\<And>env2. answered c req bs env2 \<Longrightarrow> \<exists>ack. Request c [env1] [env2] = Returns (Some (Inr ack)) \<and>
      GetDHCPMessageType (Opts ack) = DHCPACK \<and> conns s1 (getMac (mac_of c)) = Some (YIAddr ack)"
proof -
  let ?mac = "mac_of c"
  have d: "DiscoverPacket c = Returns (discover_packet ?mac)" using assms(3) by (simp add: DiscoverPacket_eq)
  obtain offer yi where o: "server_inv s1" "config_ok s1" "getIP s1 ?mac = Some yi" "length yi = 4"
    "ParsePacket (take 1500 obs) = Inr offer" "TransactionID offer = TransactionID (discover_packet ?mac)"
    "GetDHCPMessageType (Opts offer) = DHCPOffer" "YIAddr offer = Some yi" "is_some4 (SIAddr offer)"
    by (rule offer_received [OF assms(1-4,6)])
  let ?req = "request_packet ?mac offer yi"
  obtain bs ack where r: "encodable ?req" "length (packet_bytes ?req) \<le> 1500" "length bs = 254"
    "serve_one s1 (Received (packet_bytes ?req) (UDPAddr a port) None) = Returns (s1, Some (bs, reply_addr (UDPAddr a port)), None)"
    "ParsePacket (take 1500 bs) = Inr ack" "TransactionID ack = TransactionID ?req"
    "GetDHCPMessageType (Opts ack) = DHCPACK" "YIAddr ack = Some yi"
    by (rule request_acked [OF o(1,2) assms(4) o(3,4) ParsePacket_received [OF o(5)] o(9)])
  have disc: "DiscoverOffer c [env1] = Returns (Some (Inr offer))"
    by (rule DiscoverOffer_answered [OF d o(7) assms(7) o(5,6) encodable_marshals [OF discover_encodable [OF assms(3,4)]] assms(5)])
  obtain link where "iface c = Some link" using assms(3) by (cases "iface c") (simp_all add: mac_of_def)
  note rp = RequestPacket_eq [OF this o(8,4)]
  have lease: "conns s1 (getMac ?mac) = Some (YIAddr ack)"
    using o(3) r(8) by (simp add: getIP_def split: option.splits)
  have "Request c [env1] [env2] = Returns (Some (Inr ack))" if "answered c ?req bs env2" for env2
    using SendAndReadOne_answered [OF that r(5,6) encodable_marshals [OF r(1)] assms(5)] disc rp by (simp add: Request_def)
  with that [OF disc rp r(1,2) _ r(3,4)] o(6) r(7) lease show ?thesis by (auto simp: request_packet_def)
qed

text \<open>A server that has an address for the client answers its Discover.\<close>

lemma assign_ip_succeeds:
  assumes "server_inv s" and "cidr_net k (subnet (ips s))"
    and "conns s (getMac (CHAddr pkt)) \<noteq> None \<or> (\<exists>b. free_addr s b)"
  shows "\<exists>b s'. assign_ip s pkt = Returns (Some b, s')"
proof -
  have "alloc (ips s) \<noteq> Diverges" if "free_addr s b" for b
    using that alloc_diverges_iff [OF server_inv_ipv4 [OF assms(1)]]
    by (auto simp: free_addr_held [OF assms(1)] blocked_def)
  moreover have "assign_ip s pkt = Returns (ip, s)" if "conns s (getMac (CHAddr pkt)) = Some ip" for ip
    using that by (simp add: assign_ip_def)
  ultimately obtain ip s' where r: "assign_ip s pkt = Returns (ip, s')"
    using assign_ip_outcome [OF assms(1), of pkt] assms(3) by (cases "assign_ip s pkt") auto
  note c = assign_ip_lowest [OF assms(1,2) r]
  have "ip \<noteq> None"
  proof (cases "conns s (getMac (CHAddr pkt))")
    case None
    with assms(3) obtain b where "free_addr s b" by auto
    with c None show ?thesis by (cases ip) (auto split: if_splits)
  next
    case (Some l)
    with c leased_4 [OF assms(1) Some] show ?thesis by auto
  qed
  with r show ?thesis by auto
qed

lemma discover_answered:
  assumes "server_inv s" and "config_ok s" and "cidr_net k (subnet (ips s))"
    and "4 \<le> length mac" and "length mac \<le> 16"
    and "conns s (getMac mac) \<noteq> None \<or> (\<exists>b. free_addr s b)"
  shows "\<exists>s1 obs. serve_one s (Received (packet_bytes (discover_packet mac)) (UDPAddr a port) None) =
    Returns (s1, Some (obs, reply_addr (UDPAddr a port)), None) \<and> length obs = 254"
proof -
  let ?d = "canonical (discover_packet mac)"
  have pd: "ParsePacket (take maxMessageSize (packet_bytes (discover_packet mac))) = Inr ?d"
    using discover_received(1) [OF assms(4,5)] by (simp add: maxMessageSize_def)
  note rd = ParsePacket_received [OF pd]
  have fd: "GetDHCPMessageType (Opts ?d) = DHCPDiscover" "CHAddr ?d = mac"
    by (simp_all add: canonical_def discover_packet_def drop_empty_def GetDHCPMessageType_eq)
  obtain b s1 where as: "assign_ip s ?d = Returns (Some b, s1)"
    using assign_ip_succeeds [OF assms(1,3), of ?d] assms(6) fd(2) by auto
  then have "ip_or_nil (Some b)" using assign_ip_inv [OF assms(1) as] by simp
  from reply_size [OF assms(2) rd ip_or_nil_simps(1) this]
  have "length (packet_bytes (reply_packet s ?d DHCPOffer None (Some b))) = 254" .
  with pd fd(1) as show ?thesis
    by (simp add: serve_one_def serve_packet_def serve_discover_eq [OF assms(1,2) rd] send_reply_def)
qed

section \<open>The handshake, frame by frame\<close>

text \<open>
  The server on its host, whose socket listens on the port of the command: a frame that the host delivers is an
  input of \<open>Serve\<close>, and a reply leaves as a frame. A frame that it drops does not reach the server.
\<close>

definition server_host :: "(byte list \<Rightarrow> (byte list \<times> udp_addr) option) \<Rightarrow> (byte list \<Rightarrow> udp_addr \<Rightarrow> byte list) \<Rightarrow>
    Server \<Rightarrow> byte list \<Rightarrow> (Server \<times> raw_input list) outcome" where
  "server_host recv frame s f = (case recv f of
     None \<Rightarrow> Returns (s, [])
   | Some (payload, ip, port) \<Rightarrow>
       obind (serve_one s (Received payload (UDPAddr ip port) None)) (\<lambda>(s', d, e).
         Returns (s', case d of Some (bs, UDPAddr a p) \<Rightarrow> [RawPacket (frame bs (a, p))] | _ \<Rightarrow> [])))"

text \<open>
  The client completes an exchange with the server: its requests travel as frames of its raw
  connection, and the frames of the server arrive after some other traffic.
\<close>

definition network_request :: "(byte list \<Rightarrow> (byte list \<times> udp_addr) option) \<Rightarrow> (byte list \<Rightarrow> udp_addr \<Rightarrow> byte list) \<Rightarrow>
    'r UDPPacketConn Client \<Rightarrow> Server \<Rightarrow>
    byte list list \<Rightarrow> byte list list \<Rightarrow> ((client_error + Packet) option \<times> Server) outcome" where
  "network_request recv frame c s noise1 noise2 = (case conn c of
     None \<Rightarrow> Panics
   | Some upc \<Rightarrow>
       obind (DiscoverPacket c) (\<lambda>d.
       obind (Packet_MarshalBinary d) (\<lambda>db.
       obind (frame_for upc (case db of Inl e \<Rightarrow> [] | Inr bs \<Rightarrow> bs)) (\<lambda>f1.
       obind (server_host recv frame s f1) (\<lambda>(s1, r1).
       obind (attempt_on upc (map RawPacket noise1 @ r1)) (\<lambda>env1.
       obind (DiscoverOffer c [env1]) (\<lambda>res. case res of
         Some (Inr offer) \<Rightarrow>
           obind (RequestPacket c offer) (\<lambda>req.
           obind (Packet_MarshalBinary req) (\<lambda>rb.
           obind (frame_for upc (case rb of Inl e \<Rightarrow> [] | Inr bs \<Rightarrow> bs)) (\<lambda>f2.
           obind (server_host recv frame s1 f2) (\<lambda>(s2, r2).
           obind (attempt_on upc (map RawPacket noise2 @ r2)) (\<lambda>env2.
           obind (Request c [env1] [env2]) (\<lambda>r. Returns (r, s2)))))))
       | r \<Rightarrow> Returns (r, s1))))))))"

lemma server_host_reply:
  assumes "udp_host recv frame own port" and "intact f" and "addressed own port f"
    and "source_of f = (Some [0, 0, 0, 0], ClientPort)" and "length bs = 254"
    and "serve_one s (Received (payload_of f) (UDPAddr (Some [0, 0, 0, 0]) ClientPort) None) =
      Returns (s', Some (bs, reply_addr (UDPAddr (Some [0, 0, 0, 0]) ClientPort)), None)"
  shows "\<exists>g. server_host recv frame s f = Returns (s', [RawPacket g]) \<and> carries g bs (ip4_bytes IPv4bcast) ClientPort"
proof -
  have "reply_addr (UDPAddr (Some [0, 0, 0, 0]) ClientPort) = UDPAddr IPv4bcast ClientPort"
    by (simp add: IP_Equal_def IPv4zero_def net_IPv4_def v4InV6Prefix_def)
  moreover have "recv f = Some (payload_of f, Some [0, 0, 0, 0], ClientPort)"
    using udp_host.host_recv_delivers [OF assms(1-3)] assms(4) by simp
  ultimately have "server_host recv frame s f = Returns (s', [RawPacket (frame bs (IPv4bcast, ClientPort))])"
    using assms(6) by (simp add: server_host_def)
  moreover have "carries (frame bs (IPv4bcast, ClientPort)) bs (ip4_bytes IPv4bcast) ClientPort"
    by (rule udp_host.host_frame_carries [OF assms(1)]) (simp_all add: assms(5) ClientPort_def)
  ultimately show ?thesis by blast
qed

text \<open>A frame for another port or another host leaves the server as it is, without an answer.\<close>

lemma server_host_deaf:
  "udp_host recv frame own port \<Longrightarrow> \<not> addressed own port f \<Longrightarrow> server_host recv frame s f = Returns (s, [])"
  by (simp add: server_host_def udp_host.host_recv_drops)

text \<open>One request and its answer: framed, served, framed again, and read by the client.\<close>

lemma network_leg:
  assumes "udp_host recv frame own listen_port" and "boundAddr upc = Some (None, ClientPort)"
    and "length (packet_bytes p) \<le> 1500"
    and "serve_one s (Received (packet_bytes p) (UDPAddr (Some [0, 0, 0, 0]) ClientPort) None) =
      Returns (s', Some (bs, reply_addr (UDPAddr (Some [0, 0, 0, 0]) ClientPort)), None)" and "length bs = 254"
    and "iface c \<noteq> None" and "\<And>raw. raw \<in> set noise \<Longrightarrow> quiet upc (TransactionID p) raw"
  obtains f g env where "frame_for upc (packet_bytes p) = Returns f" and "server_host recv frame s f = Returns (s', [RawPacket g])"
    and "attempt_on upc (map RawPacket noise @ [RawPacket g]) = Returns env" and "answered c p bs env"
proof -
  obtain f where f: "frame_for upc (packet_bytes p) = Returns f" "intact f" "addressed own listen_port f"
    "payload_of f = packet_bytes p" "source_of f = (Some [0, 0, 0, 0], ClientPort)"
    using frame_for_served [OF assms(2,3)] by blast
  obtain g where g: "server_host recv frame s f = Returns (s', [RawPacket g])" "carries g bs (ip4_bytes IPv4bcast) ClientPort"
    using server_host_reply [OF assms(1) f(2,3,5) assms(5)] assms(4) f(4) by auto
  with attempt_on_answered [OF assms(7) g(2) assms(2) _ assms(6)] assms(5) f(1) that show ?thesis by auto
qed

end
