(* ===== verification/Typing.thy ===== *)
theory Typing
  imports ServerSpec Client
begin

text \<open>
  The type discipline of packets: what every decoded packet satisfies, and that client and server
  can build, from any packet that satisfies it, messages that satisfy it again.
\<close>

definition is_ip4 :: "net_IP \<Rightarrow> bool" where
  "is_ip4 ip \<longleftrightarrow> (case ip of None \<Rightarrow> False | Some b \<Rightarrow> length b = 4)"

definition typed_options :: "Options \<Rightarrow> bool" where
  "typed_options opts \<longleftrightarrow> opts Pad = None \<and> opts End = None \<and> Some [] \<notin> range opts"

definition typed_packet :: "Packet \<Rightarrow> bool" where
  "typed_packet p \<longleftrightarrow> length (TransactionID p) = 4 \<and> length (CHAddr p) \<le> 16 \<and>
     is_ip4 (CIAddr p) \<and> is_ip4 (YIAddr p) \<and> is_ip4 (SIAddr p) \<and> is_ip4 (GIAddr p) \<and>
     length (ServerName p) \<le> 64 \<and> 0 \<notin> set (ServerName p) \<and>
     length (BootFile p) \<le> 128 \<and> 0 \<notin> set (BootFile p) \<and> typed_options (Opts p)"

lemma typed_apply_item: "typed_options opts \<Longrightarrow> valid_item i \<Longrightarrow> typed_options (apply_item i opts)"
  by (cases i) (auto simp: typed_options_def AddRaw_def image_iff split: option.splits if_splits)

lemma typed_fold_items: "list_all valid_item items \<Longrightarrow> typed_options opts \<Longrightarrow> typed_options (fold apply_item items opts)"
  by (induction items arbitrary: opts) (auto intro: typed_apply_item)

lemma typed_cstring: "length bs = n \<Longrightarrow> length (cstring n bs) \<le> n \<and> 0 \<notin> set (cstring n bs)"
  by (auto simp: cstring_def split: option.splits dest: index_of_Some simp: index_of_None_iff)

lemma ParsePacket_typed: "ParsePacket q = Inr p \<Longrightarrow> typed_packet p"
proof -
  assume "ParsePacket q = Inr p"
  then obtain items where q: "240 \<le> length q" "list_all valid_item items"
    "p = (decode_header q)\<lparr>Opts := options_of_items items\<rparr>" by (auto simp: ParsePacket_iff)
  have "typed_options (options_of_items items)"
    unfolding options_of_items_fold using q(2) by (intro typed_fold_items) (auto simp: typed_options_def)
  moreover have "length (take 64 (drop 44 q)) = 64" "length (take 128 (drop 108 q)) = 128" using q(1) by simp_all
  ultimately show ?thesis
    using q(1) typed_cstring [of "take 64 (drop 44 q)" 64] typed_cstring [of "take 128 (drop 108 q)" 128]
    by (simp add: q(3) typed_packet_def decode_header_def is_ip4_def)
qed

lemma typed_request:
  assumes "typed_packet p" and "iface c = Some link" and "length (HardwareAddr link) \<le> 16"
  shows "\<exists>req. RequestPacket c p = Returns req \<and> encodable req"
proof -
  obtain yi ci si where ip: "YIAddr p = Some yi" "length yi = 4" "CIAddr p = Some ci" "length ci = 4"
    "SIAddr p = Some si" "length si = 4"
    using assms(1) by (auto simp: typed_packet_def is_ip4_def split: option.splits)
  have "wf_packet p" using assms(1) by (simp add: typed_packet_def wf_packet_def)
  moreover have "length (mac_of c) \<le> 16" using assms(2,3) by (simp add: mac_of_def)
  ultimately show ?thesis using RequestPacket_eq [OF assms(2) ip(1,2)] request_received(1) [OF _ ip(2) _ ip(3-6)] by blast
qed

lemma typed_response:
  assumes "typed_packet p" and "config_ok s"
  shows "\<exists>re. responsePacket s p typ = Returns re \<and> encodable re"
proof -
  have "received_packet p"
    using assms(1) by (auto simp: typed_packet_def is_ip4_def received_packet_def wf_packet_def split: option.splits)
  then have "encodable (reply_base (bytes_of (srv_ip s)) p typ)"
    using reply_encodable [of p "bytes_of (srv_ip s)" None None "[]" "[]" "typ"] assms(2)
    by (auto simp: config_ok_def reply_base_def NewPacket_def zero_Packet_def)
  with responsePacket_config [OF assms(2)] show ?thesis by blast
qed

lemma encodable_typed:
  "encodable p \<Longrightarrow> \<exists>bs p'. Packet_MarshalBinary p = Returns (Inr bs) \<and> ParsePacket bs = Inr p' \<and> typed_packet p'"
  using encodable_marshals ParsePacket_packet_bytes ParsePacket_typed by blast

section \<open>Properties\<close>

text \<open>
  C18. Packets are typed, and typed packets do not go wrong: whatever bytes \<open>ParsePacket\<close> accepts, the
  packet has a transaction of 4 bytes, a hardware address of at most 16, four addresses of 4 bytes,
  names that fit their fields and no option without data. From any such packet a client on an
  interface with a hardware address of at most 16 bytes builds a request, and a configured server a reply of any
  type, without a panic; their encodings decode to typed packets again.
\<close>

theorem parsed_packets_typed:
  assumes "ParsePacket q = Inr p" and "iface c = Some link" and "length (HardwareAddr link) \<le> 16"
    and "config_ok s"
  shows "typed_packet p \<and>
    (\<exists>req bs p'. RequestPacket c p = Returns req \<and> Packet_MarshalBinary req = Returns (Inr bs) \<and>
      ParsePacket bs = Inr p' \<and> typed_packet p') \<and>
    (\<exists>re bs p'. responsePacket s p typ = Returns re \<and> Packet_MarshalBinary re = Returns (Inr bs) \<and>
      ParsePacket bs = Inr p' \<and> typed_packet p')"
  using typed_request [OF ParsePacket_typed [OF assms(1)] assms(2,3)] typed_response [OF ParsePacket_typed [OF assms(1)] assms(4)]
    ParsePacket_typed [OF assms(1)] encodable_typed by blast

theorem parsed_packets_typed_witness:
  "\<exists>q p req. ParsePacket q = Inr p \<and> typed_packet p \<and> RequestPacket example_client p = Returns req"
proof -
  have q: "ParsePacket (take 1500 (packet_bytes Client.example_offer)) = Inr Client.example_offer" by (rule example_offer_ok(3))
  obtain link where "iface example_client = Some link" "length (HardwareAddr link) \<le> 16"
    by (simp add: example_client_def)
  from parsed_packets_typed [OF q this example_ok(3)] q show ?thesis by blast
qed

end
