(* ===== verification/ClientConc.thy ===== *)
theory ClientConc
  imports Client EventSystem
begin

text \<open>
  The concurrency of \<^verbatim>\<open>dhcp4client/client.go\<close>: \<open>SimpleSendAndRead\<close> runs the exchange in a goroutine that
  talks to its caller through two buffered channels, a context that the caller cancels, and a wait
  group. Both sides are step machines here, interleaved in any order; a step is one operation on
  a channel, the context or the connection. \<open>Client\<close> treats the same exchange as a function of what
  the environment answers, and every interleaving is shown to agree with it.
\<close>

section \<open>State\<close>

text \<open>
  Where the goroutine is: before \<open>MarshalBinary\<close>; at the head of the loop of \<open>retryFn\<close>; at the top of the
  read loop; in \<open>ReadFrom\<close>; at the first and at the second \<open>select\<close> with a response in hand; about to
  send an error on \<open>errCh\<close>; at \<open>close(out)\<close>, \<open>close(errOut)\<close>, \<open>wg.Done()\<close>; done; or it has panicked. The numbers are
  the loop counter of \<open>retryFn\<close> and \<open>numPackets\<close>.
\<close>

datatype worker =
    WStart
  | WTry nat
  | WTop nat nat
  | WRead nat nat
  | WSend nat nat ClientPacket
  | WBlock nat nat ClientPacket
  | WErr go_error
  | WCloseOut
  | WCloseErr
  | WFinish
  | WDone
  | WPanicked

text \<open>
  Where the caller is: receiving from \<open>out\<close>; receiving from \<open>errCh\<close>; about to cancel, in \<open>wg.Wait()\<close>, and
  returned, with its result. A panic of the goroutine ends the program, and the caller with it.
\<close>

type_synonym call_result = "client_error + Packet"

datatype caller = CRange | CErr | CCancel call_result | CWait call_result | CReturned call_result | CCrashed

text \<open>
  \<open>tctx\<close> is the state of the context with the timeout of the current attempt, \<open>None\<close> while it is not
  done; \<open>cancelled\<close> that of the context the caller cancels; \<open>rdl\<close> that of the read deadline of the connection.
\<close>

datatype deadline = Unset | Pending | Expired

record conc =
  wk :: worker
  tctx :: "go_error option"
  rdl :: deadline
  cancelled :: bool
  out_buf :: "ClientPacket list"
  out_closed :: bool
  err_buf :: "ClientError list"
  err_closed :: bool
  clr :: caller

definition out_capacity :: nat where "out_capacity = 10"
definition err_capacity :: nat where "err_capacity = 1"

definition conc_init :: "conc \<Rightarrow> bool" where
  "conc_init st \<longleftrightarrow> st = \<lparr>wk = WStart, tctx = None, rdl = Unset, cancelled = False, out_buf = [], out_closed = False,
     err_buf = [], err_closed = False, clr = CRange\<rparr>"

section \<open>Steps\<close>

datatype conc_event =
    Marshalled
  | Wrote "go_error option"
  | OutOfRetries
  | Checked go_error
  | Armed bool
  | DidRead read_answer
  | Sent ClientPacket
  | FoundFull
  | Aborted
  | SentErr ClientError
  | ClosedOut
  | ClosedErr
  | WgDone
  | DeadlinePassed
  | ReadDeadlinePassed
  | Got ClientPacket
  | OutDrained
  | GotErr client_error
  | Cancels
  | Returned

text \<open>What the goroutine does with the answer of \<open>ReadFrom\<close>.\<close>

definition after_read :: "'c Client \<Rightarrow> Packet \<Rightarrow> nat \<Rightarrow> nat \<Rightarrow> read_answer \<Rightarrow> worker" where
  "after_read c p i n r = (case r of
     ReadTimedOut \<Rightarrow> WTop i n
   | ReadFailed e \<Rightarrow> WErr (ReadingFromUDP e)
   | ReadData b \<Rightarrow> (case Packet_UnmarshalBinary (take 1500 b) zero_Packet of
       (pkt, Some e) \<Rightarrow> WTop i n
     | (pkt, None) \<Rightarrow>
         if TransactionID pkt \<noteq> TransactionID p then (case iface c of
             None \<Rightarrow> WPanicked
           | Some link \<Rightarrow> if HardwareAddr link \<noteq> CHAddr pkt then WTop i n else WTop i n)
         else WSend i (n + 1) \<lparr>cp_Interface = iface c, cp_Packet = pkt\<rparr>))"

text \<open>
  The caller looks for a response that it wants; \<open>none\<close> is its error if there is no response.

  A passed check of the context is followed by \<open>SetReadDeadline\<close>, whose error the code drops: \<open>Armed\<close> says whether it
  set the deadline; if not, the connection keeps the one it had. \<open>ReadFrom\<close> then waits for the network, and times out
  only when the read deadline has passed, as \<^verbatim>\<open>net.Conn\<close> documents. The two deadlines pass by themselves.
\<close>

inductive conc_step :: "'c Client \<Rightarrow> Packet \<Rightarrow> (ClientPacket \<Rightarrow> bool) \<Rightarrow> go_error \<Rightarrow> conc \<Rightarrow> conc_event \<Rightarrow> conc \<Rightarrow> bool"
  for c :: "'c Client" and p :: Packet and want :: "ClientPacket \<Rightarrow> bool" and none :: go_error where
  w_marshal: "wk st = WStart \<Longrightarrow> Packet_MarshalBinary p = Returns r \<Longrightarrow>
    conc_step c p want none st Marshalled (st\<lparr>wk := (case r of Inl e \<Rightarrow> WErr e | Inr pkt \<Rightarrow> WTry 0)\<rparr>)"
| w_write: "wk st = WTry i \<Longrightarrow> int i < retry c \<or> retry c < 0 \<Longrightarrow>
    conc_step c p want none st (Wrote e) (case e of
      Some e \<Rightarrow> st\<lparr>wk := WErr (WritingPacket e)\<rparr>
    | None \<Rightarrow> st\<lparr>wk := WTop i 0, tctx := (if cancelled st then Some Canceled else None)\<rparr>)"
| w_limit: "wk st = WTry i \<Longrightarrow> \<not> (int i < retry c \<or> retry c < 0) \<Longrightarrow>
    conc_step c p want none st OutOfRetries (st\<lparr>wk := WErr DeadlineExceeded\<rparr>)"
| w_done: "wk st = WTop i n \<Longrightarrow> tctx st = Some e \<Longrightarrow>
    conc_step c p want none st (Checked e) (st\<lparr>wk := (if 0 < n then WCloseOut
      else if e = DeadlineExceeded then WTry (i + 1) else WErr e)\<rparr>)"
| w_go_on: "wk st = WTop i n \<Longrightarrow> tctx st = None \<Longrightarrow>
    conc_step c p want none st (Armed ok) (st\<lparr>wk := WRead i n, rdl := (if ok then Pending else rdl st)\<rparr>)"
| w_read: "wk st = WRead i n \<Longrightarrow> r = ReadTimedOut \<longrightarrow> rdl st = Expired \<Longrightarrow>
    conc_step c p want none st (DidRead r) (st\<lparr>wk := after_read c p i n r,
      clr := (if after_read c p i n r = WPanicked then CCrashed else clr st)\<rparr>)"
| w_send: "wk st = WSend i n cp \<or> wk st = WBlock i n cp \<Longrightarrow> length (out_buf st) < out_capacity \<Longrightarrow>
    conc_step c p want none st (Sent cp) (st\<lparr>wk := WTop i n, out_buf := out_buf st @ [cp]\<rparr>)"
| w_full: "wk st = WSend i n cp \<Longrightarrow> \<not> length (out_buf st) < out_capacity \<Longrightarrow>
    conc_step c p want none st FoundFull (st\<lparr>wk := WBlock i n cp\<rparr>)"
| w_abort: "wk st = WBlock i n cp \<Longrightarrow> cancelled st \<Longrightarrow>
    conc_step c p want none st Aborted (st\<lparr>wk := WErr Canceled\<rparr>)"
| w_err: "wk st = WErr e \<Longrightarrow> length (err_buf st) < err_capacity \<Longrightarrow> newClientErr c (Some e) = Some ce \<Longrightarrow>
    conc_step c p want none st (SentErr ce) (st\<lparr>wk := WCloseOut, err_buf := err_buf st @ [ce]\<rparr>)"
| w_close_out: "wk st = WCloseOut \<Longrightarrow>
    conc_step c p want none st ClosedOut (st\<lparr>wk := WCloseErr, out_closed := True\<rparr>)"
| w_close_err: "wk st = WCloseErr \<Longrightarrow>
    conc_step c p want none st ClosedErr (st\<lparr>wk := WFinish, err_closed := True\<rparr>)"
| w_wg_done: "wk st = WFinish \<Longrightarrow> conc_step c p want none st WgDone (st\<lparr>wk := WDone\<rparr>)"
| deadline: "tctx st = None \<Longrightarrow>
    conc_step c p want none st DeadlinePassed (st\<lparr>tctx := Some DeadlineExceeded\<rparr>)"
| read_deadline: "wk st = WRead i n \<Longrightarrow> rdl st = Pending \<Longrightarrow>
    conc_step c p want none st ReadDeadlinePassed (st\<lparr>rdl := Expired\<rparr>)"
| c_got: "clr st = CRange \<Longrightarrow> out_buf st = cp # rest \<Longrightarrow>
    conc_step c p want none st (Got cp) (st\<lparr>out_buf := rest,
      clr := (if want cp then CCancel (Inr (cp_Packet cp)) else CRange)\<rparr>)"
| c_drained: "clr st = CRange \<Longrightarrow> out_buf st = [] \<Longrightarrow> out_closed st \<Longrightarrow>
    conc_step c p want none st OutDrained (st\<lparr>clr := CErr\<rparr>)"
| c_err: "clr st = CErr \<Longrightarrow> err_buf st = ce # rest \<Longrightarrow>
    conc_step c p want none st (GotErr (Failed ce)) (st\<lparr>err_buf := rest, clr := CCancel (Inl (Failed ce))\<rparr>)"
| c_no_err: "clr st = CErr \<Longrightarrow> err_buf st = [] \<Longrightarrow> err_closed st \<Longrightarrow>
    conc_step c p want none st (GotErr (NoResponse none)) (st\<lparr>clr := CCancel (Inl (NoResponse none))\<rparr>)"
| c_cancel: "clr st = CCancel r \<Longrightarrow>
    conc_step c p want none st Cancels (st\<lparr>clr := CWait r, cancelled := True,
      tctx := (case tctx st of None \<Rightarrow> Some Canceled | Some e \<Rightarrow> Some e)\<rparr>)"
| c_return: "clr st = CWait r \<Longrightarrow> wk st = WDone \<Longrightarrow>
    conc_step c p want none st Returned (st\<lparr>clr := CReturned r\<rparr>)"

text \<open>A call that returns \<open>r\<close> after the given events, in some interleaving.\<close>

definition returns_after ::
  "'c Client \<Rightarrow> Packet \<Rightarrow> (ClientPacket \<Rightarrow> bool) \<Rightarrow> go_error \<Rightarrow> conc_event list \<Rightarrow> call_result \<Rightarrow> bool" where
  "returns_after c p want none es r \<longleftrightarrow>
    (\<exists>st0 st. conc_init st0 \<and> run (conc_step c p want none) st0 es st \<and> clr st = CReturned r)"

text \<open>\<open>Request\<close> with its two exchanges, each with a goroutine of its own.\<close>

inductive request_run :: "'c Client \<Rightarrow> conc_event list \<Rightarrow> conc_event list \<Rightarrow> call_result \<Rightarrow> bool"
  for c :: "'c Client" where
  no_offer: "DiscoverPacket c = Returns p \<Longrightarrow> returns_after c p is_offer DidntGetPacket es (Inl e) \<Longrightarrow>
    request_run c es [] (Inl e)"
| offered: "DiscoverPacket c = Returns p \<Longrightarrow> returns_after c p is_offer DidntGetPacket es (Inr offer) \<Longrightarrow>
    RequestPacket c offer = Returns p' \<Longrightarrow> returns_after c p' (\<lambda>_. True) NoPacketReceived es' r \<Longrightarrow>
    request_run c es es' r"

section \<open>The invariant\<close>

definition done_working :: "worker \<Rightarrow> bool" where
  "done_working w \<longleftrightarrow> w = WFinish \<or> w = WDone"

definition channels_ok :: "conc \<Rightarrow> bool" where
  "channels_ok st \<longleftrightarrow> length (out_buf st) \<le> out_capacity \<and> length (err_buf st) \<le> err_capacity \<and>
     (out_closed st \<longleftrightarrow> wk st = WCloseErr \<or> done_working (wk st)) \<and> (err_closed st \<longleftrightarrow> done_working (wk st)) \<and>
     (err_buf st \<noteq> [] \<longrightarrow> wk st = WCloseOut \<or> out_closed st)"

definition caller_ok :: "conc \<Rightarrow> bool" where
  "caller_ok st \<longleftrightarrow> (case clr st of
     CRange \<Rightarrow> \<not> cancelled st
   | CErr \<Rightarrow> \<not> cancelled st \<and> out_closed st
   | CCancel r \<Rightarrow> \<not> cancelled st
   | CWait r \<Rightarrow> cancelled st
   | CReturned r \<Rightarrow> cancelled st \<and> wk st = WDone
   | CCrashed \<Rightarrow> wk st = WPanicked) \<and> (cancelled st \<longrightarrow> tctx st \<noteq> None)"

text \<open>Only a client without an interface panics, and then nothing is left of the caller.\<close>

definition crash_ok :: "'c Client \<Rightarrow> conc \<Rightarrow> bool" where
  "crash_ok c st \<longleftrightarrow> (wk st = WPanicked \<longrightarrow> clr st = CCrashed \<and> iface c = None)"

definition conc_inv :: "'c Client \<Rightarrow> conc \<Rightarrow> bool" where
  "conc_inv c st \<longleftrightarrow> channels_ok st \<and> caller_ok st \<and> crash_ok c st"

lemma after_read_cases:
  obtains "after_read c p i n r = WTop i n" and "\<And>e. r \<noteq> ReadFailed e"
    and "responses p \<lparr>done_err = None, answer = r, send_err = None\<rparr> = []"
    and "iface c = None \<longrightarrow> \<not> alien p \<lparr>done_err = None, answer = r, send_err = None\<rparr>"
  | e where "r = ReadFailed e" and "after_read c p i n r = WErr (ReadingFromUDP e)"
  | b pkt where "r = ReadData b" and "Packet_UnmarshalBinary (take 1500 b) zero_Packet = (pkt, None)"
    and "TransactionID pkt \<noteq> TransactionID p" and "iface c = None" and "after_read c p i n r = WPanicked"
  | b pkt where "r = ReadData b" and "ParsePacket (take 1500 b) = Inr pkt" and "TransactionID pkt = TransactionID p"
    and "after_read c p i n r = WSend i (n + 1) (client_packet c pkt)"
proof (cases r)
  case ReadTimedOut
  with that(1) show ?thesis by (simp add: after_read_def responses_def alien_def)
next
  case (ReadFailed e)
  with that(2) show ?thesis by (simp add: after_read_def)
next
  case (ReadData b)
  obtain pkt e where u: "Packet_UnmarshalBinary (take 1500 b) zero_Packet = (pkt, e)" by fastforce
  show ?thesis
  proof (cases e)
    case None
    note pp = UnmarshalBinary_ParsePacket(1) [OF u [unfolded None]]
    show ?thesis
    proof (cases "TransactionID pkt = TransactionID p")
      case True
      with u ReadData None pp that(4) [of b pkt] show ?thesis by (simp add: after_read_def client_packet_def)
    next
      case False
      with u ReadData None pp that(1) that(3) [of b pkt] show ?thesis
        by (cases "iface c") (simp_all add: after_read_def responses_def)
    qed
  next
    case (Some e')
    note pp = UnmarshalBinary_ParsePacket(2) [OF u [unfolded Some]]
    with u ReadData Some that(1) show ?thesis by (simp add: after_read_def responses_def alien_def)
  qed
qed

lemma channels_ok_step: "conc_step c p want none st e st' \<Longrightarrow> channels_ok st \<Longrightarrow> channels_ok st'"
proof (induction rule: conc_step.induct)
  case (w_read st i n r)
  then show ?case
    by (cases rule: after_read_cases [of c p i n r]) (auto simp: channels_ok_def done_working_def)
qed (auto simp: channels_ok_def done_working_def err_capacity_def split: option.splits sum.splits)

lemma caller_ok_step: "conc_step c p want none st e st' \<Longrightarrow> channels_ok st \<Longrightarrow> caller_ok st \<Longrightarrow> caller_ok st'"
  by (induction rule: conc_step.induct)
    (auto simp: caller_ok_def channels_ok_def done_working_def split: option.splits caller.splits)

lemma crash_ok_step:
  "conc_step c p want none st e st' \<Longrightarrow> caller_ok st \<Longrightarrow> crash_ok c st \<Longrightarrow> crash_ok c st'"
proof (induction rule: conc_step.induct)
  case (w_read st i n r)
  then show ?case by (cases rule: after_read_cases [of c p i n r]) (auto simp: crash_ok_def)
qed (auto simp: crash_ok_def split: option.splits sum.splits)

interpretation exchanging: invariant_system conc_init "conc_step c p want none" "conc_inv c"
proof
  show "conc_inv c st" if "conc_init st" for st
    using that by (simp add: conc_init_def conc_inv_def channels_ok_def caller_ok_def crash_ok_def done_working_def)
  show "conc_inv c st'" if "conc_inv c st" "conc_step c p want none st e st'" for st st' e
    using that(1) channels_ok_step [OF that(2)] caller_ok_step [OF that(2)] crash_ok_step [OF that(2)]
    by (simp add: conc_inv_def)
qed

section \<open>No deadlock\<close>

text \<open>
  The steps that caller and goroutine take by themselves: they wait neither for a clock nor for the network, apart
  from a read that ends because its deadline has passed.
\<close>

fun own_step :: "conc_event \<Rightarrow> bool" where
  "own_step DeadlinePassed \<longleftrightarrow> False"
| "own_step ReadDeadlinePassed \<longleftrightarrow> False"
| "own_step (DidRead r) \<longleftrightarrow> r = ReadTimedOut"
| "own_step _ \<longleftrightarrow> True"

definition can_move :: "'c Client \<Rightarrow> Packet \<Rightarrow> (ClientPacket \<Rightarrow> bool) \<Rightarrow> go_error \<Rightarrow> conc \<Rightarrow> bool" where
  "can_move c p want none st \<longleftrightarrow> (\<exists>e st'. conc_step c p want none st e st' \<and> own_step e)"

lemma can_moveI: "conc_step c p want none st e st' \<Longrightarrow> own_step e \<Longrightarrow> can_move c p want none st"
  unfolding can_move_def by blast

definition waiting_read :: "conc \<Rightarrow> bool" where
  "waiting_read st \<longleftrightarrow> (\<exists>i n. wk st = WRead i n) \<and> rdl st \<noteq> Expired"

lemma worker_can_move:
  assumes "channels_ok st" and "Packet_MarshalBinary p = Returns res" and "wk st \<noteq> WDone" and "wk st \<noteq> WPanicked"
    and "\<And>i n cp. wk st = WBlock i n cp \<Longrightarrow> length (out_buf st) < out_capacity \<or> cancelled st"
    and "\<not> waiting_read st"
  shows "can_move c p want none st"
proof (cases "wk st")
  case WStart
  with assms(2) show ?thesis by (auto intro: can_moveI [OF w_marshal])
next
  case (WTry i)
  then show ?thesis
    using can_moveI [OF w_write [of st i c p want none None]] can_moveI [OF w_limit [of st i c]] by auto
next
  case (WTop i n)
  then show ?thesis
    using can_moveI [OF w_done [of st i n]] can_moveI [OF w_go_on [of st i n c p want none True]] by (cases "tctx st") force+
next
  case (WRead i n)
  with assms(6) have "rdl st = Expired" by (auto simp: waiting_read_def)
  with WRead show ?thesis using can_moveI [OF w_read [of st i n ReadTimedOut]] by auto
next
  case (WSend i n cp)
  then show ?thesis using can_moveI [OF w_send [of st i n cp]] can_moveI [OF w_full [of st i n cp]]
    by (cases "length (out_buf st) < out_capacity") auto
next
  case (WBlock i n cp)
  then show ?thesis using can_moveI [OF w_send [of st i n cp]] can_moveI [OF w_abort [of st i n cp]] assms(5) by auto
next
  case (WErr e)
  moreover from this assms(1) have "length (err_buf st) < err_capacity"
    by (auto simp: channels_ok_def done_working_def err_capacity_def)
  ultimately show ?thesis
    using can_moveI [OF w_err [of st e c "\<lparr>ce_Interface = iface c, ce_Err = e\<rparr>"]] by (simp add: newClientErr_def)
qed (use assms(3,4) can_moveI [OF w_close_out] can_moveI [OF w_close_err] can_moveI [OF w_wg_done] in auto)

lemma no_deadlock:
  assumes "conc_inv c st" and "Packet_MarshalBinary p = Returns res" and "\<And>r. clr st \<noteq> CReturned r"
    and "clr st \<noteq> CCrashed" and "\<not> waiting_read st"
  shows "can_move c p want none st"
proof -
  have ch: "channels_ok st" and ca: "caller_ok st" and cr: "wk st \<noteq> WPanicked"
    using assms(1,4) by (auto simp: conc_inv_def crash_ok_def)
  show ?thesis
  proof (cases "wk st = WDone")
    case True
    with ch have closed: "out_closed st" "err_closed st" by (auto simp: channels_ok_def done_working_def)
    show ?thesis
    proof (cases "clr st")
      case CRange
      then show ?thesis
        using can_moveI [OF c_got [of st]] can_moveI [OF c_drained [of st]] closed by (cases "out_buf st") force+
    next
      case CErr
      then show ?thesis
        using can_moveI [OF c_err [of st]] can_moveI [OF c_no_err [of st]] closed by (cases "err_buf st") force+
    next
      case (CCancel r)
      then show ?thesis using can_moveI [OF c_cancel [of st r]] by simp
    next
      case (CWait r)
      with True show ?thesis using can_moveI [OF c_return [of st r]] by simp
    qed (use assms(3,4) in auto)
  next
    case False
    show ?thesis
    proof (cases "\<exists>i n cp. wk st = WBlock i n cp \<and> \<not> length (out_buf st) < out_capacity \<and> \<not> cancelled st")
      case True
      then have ob: "out_buf st \<noteq> []" "\<not> out_closed st"
        using ch by (auto simp: channels_ok_def done_working_def out_capacity_def)
      with True ca assms(4) have "clr st = CRange \<or> (\<exists>r. clr st = CCancel r)"
        by (auto simp: caller_ok_def split: caller.splits)
      with ob(1) show ?thesis
        using can_moveI [OF c_got [of st]] can_moveI [OF c_cancel [of st]] by (cases "out_buf st") force+
    next
      case False
      with worker_can_move [OF ch assms(2) \<open>wk st \<noteq> WDone\<close> cr _ assms(5)] show ?thesis by blast
    qed
  qed
qed

text \<open>A read waits without a deadline only if \<open>SetReadDeadline\<close> has failed.\<close>

interpretation arming: history_invariant conc_init "conc_step c p want none"
  "\<lambda>es st. Armed False \<notin> set es \<and> (\<exists>i n. wk st = WRead i n) \<longrightarrow> rdl st \<noteq> Unset"
proof
  show "Armed False \<notin> set (es @ [e]) \<and> (\<exists>i n. wk t = WRead i n) \<longrightarrow> rdl t \<noteq> Unset"
    if "Armed False \<notin> set es \<and> (\<exists>i n. wk s = WRead i n) \<longrightarrow> rdl s \<noteq> Unset" "conc_step c p want none s e t" for es s e t
    using that(2,1)
  proof (induction rule: conc_step.induct)
    case (w_read st i n r)
    then show ?case by (cases rule: after_read_cases [of c p i n r]) auto
  qed (auto split: option.splits sum.splits if_splits)
qed (simp add: conc_init_def)

section \<open>The end of an exchange\<close>

text \<open>
  How far the goroutine is from its end, once its context has been cancelled: it looks at the context once more,
  at the latest after the read and the send that it is in, and starts at most one attempt that was due already.
\<close>

fun worker_rank :: "go_error option \<Rightarrow> worker \<Rightarrow> nat" where
  "worker_rank t WStart = 7"
| "worker_rank t (WTry i) = 6"
| "worker_rank t (WTop i n) = (if n = 0 \<and> t = Some DeadlineExceeded then 7 else 5)"
| "worker_rank t (WBlock i n cp) = 8"
| "worker_rank t (WSend i n cp) = 9"
| "worker_rank t (WRead i n) = 10"
| "worker_rank t (WErr e) = 4"
| "worker_rank t WCloseOut = 3"
| "worker_rank t WCloseErr = 2"
| "worker_rank t WFinish = 1"
| "worker_rank t WDone = 0"
| "worker_rank t WPanicked = 0"

definition conc_rank :: "conc \<Rightarrow> nat" where
  "conc_rank st = worker_rank (tctx st) (wk st) + (case clr st of CReturned r \<Rightarrow> 0 | CCrashed \<Rightarrow> 0 | _ \<Rightarrow> 1)"

definition timer_rank :: "conc \<Rightarrow> nat" where
  "timer_rank st = (if rdl st = Pending then 1 else 0)"

lemma conc_rank_le: "conc_rank st \<le> 11"
  by (cases "wk st") (auto simp: conc_rank_def split: caller.splits)

lemma conc_rank_step:
  assumes "conc_step c p want none st e st'" and "conc_inv c st" and "cancelled st"
  shows "cancelled st' \<and> (if e = ReadDeadlinePassed then conc_rank st' = conc_rank st \<and> timer_rank st' < timer_rank st
    else conc_rank st' < conc_rank st \<and> timer_rank st' \<le> timer_rank st)"
  using assms
proof (induction rule: conc_step.induct)
  case (w_read st i n r)
  then show ?case
    by (cases rule: after_read_cases [of c p i n r]) (auto simp: conc_rank_def timer_rank_def split: caller.splits)
qed (auto simp: conc_rank_def timer_rank_def conc_inv_def caller_ok_def split: option.splits sum.splits caller.splits)

text \<open>A run that goes on after the cancellation is short.\<close>

definition proper_steps :: "conc_event list \<Rightarrow> conc_event list" where
  "proper_steps es = filter (\<lambda>e. e \<noteq> ReadDeadlinePassed) es"

lemma cancelled_run_short:
  "run (conc_step c p want none) st es st' \<Longrightarrow> conc_inv c st \<Longrightarrow> cancelled st \<Longrightarrow>
    length (proper_steps es) + conc_rank st' \<le> conc_rank st \<and>
    length es + conc_rank st' + timer_rank st' \<le> conc_rank st + timer_rank st"
proof (induction rule: run.induct)
  case (run_Cons st e t es u)
  from conc_rank_step [OF run_Cons.hyps(1) run_Cons.prems] exchanging.step_inv [OF run_Cons.prems(1) run_Cons.hyps(1)]
  show ?case using run_Cons.IH by (auto simp: proper_steps_def split: if_splits)
qed (simp add: proper_steps_def)

section \<open>The answers of the environment\<close>

text \<open>
  The events of a run tell what the environment of the exchange has answered: the argument of \<open>sendAndRead\<close>
  in \<open>Client\<close>.
\<close>

definition add_iteration :: "iteration \<Rightarrow> attempt_env list \<Rightarrow> attempt_env list" where
  "add_iteration it env = butlast env @ [(last env)\<lparr>iterations := iterations (last env) @ [it]\<rparr>]"

definition abort_iteration :: "attempt_env list \<Rightarrow> attempt_env list" where
  "abort_iteration env = (let a = last env; its = iterations a in
     butlast env @ [a\<lparr>iterations := butlast its @ [(last its)\<lparr>send_err := Some Canceled\<rparr>]\<rparr>])"

fun record_event :: "attempt_env list \<Rightarrow> conc_event \<Rightarrow> attempt_env list" where
  "record_event env (Wrote e) = env @ [\<lparr>write_err = e, iterations = []\<rparr>]"
| "record_event env (Checked e) =
    add_iteration \<lparr>done_err = Some e, answer = ReadTimedOut, send_err = None\<rparr> env"
| "record_event env (DidRead r) = add_iteration \<lparr>done_err = None, answer = r, send_err = None\<rparr> env"
| "record_event env Aborted = abort_iteration env"
| "record_event env _ = env"

definition env_of :: "conc_event list \<Rightarrow> attempt_env list" where
  "env_of es = foldl record_event [] es"

lemma env_of_simps [simp]: "env_of [] = []" "env_of (es @ [e]) = record_event (env_of es) e"
  by (simp_all add: env_of_def)

fun sent_by :: "conc_event \<Rightarrow> ClientPacket list" where
  "sent_by (Sent cp) = [cp]"
| "sent_by _ = []"

fun got_by :: "conc_event \<Rightarrow> ClientPacket list" where
  "got_by (Got cp) = [cp]"
| "got_by _ = []"

fun failed_by :: "conc_event \<Rightarrow> ClientError list" where
  "failed_by (SentErr ce) = [ce]"
| "failed_by _ = []"

definition history :: "(conc_event \<Rightarrow> 'a list) \<Rightarrow> conc_event list \<Rightarrow> 'a list" where
  "history f es = concat (map f es)"

lemma history_simps [simp]: "history f [] = []" "history f (es @ [e]) = history f es @ f e"
  by (simp_all add: history_def)

section \<open>The caller and the channels\<close>

text \<open>What the caller has received, in terms of what the goroutine has sent.\<close>

definition result_link ::
  "(ClientPacket \<Rightarrow> bool) \<Rightarrow> go_error \<Rightarrow> ClientPacket list \<Rightarrow> ClientError list \<Rightarrow> conc \<Rightarrow> call_result \<Rightarrow> bool" where
  "result_link want none got errs st r \<longleftrightarrow> (case r of
     Inr pkt \<Rightarrow> map_option cp_Packet (find want got) = Some pkt
   | Inl f \<Rightarrow> find want got = None \<and> out_closed st \<and> out_buf st = [] \<and>
       (case f of Failed ce \<Rightarrow> \<exists>rest. errs = ce # rest | NoResponse e \<Rightarrow> e = none \<and> errs = [] \<and> err_closed st))"

fun caller_link ::
  "(ClientPacket \<Rightarrow> bool) \<Rightarrow> go_error \<Rightarrow> ClientPacket list \<Rightarrow> ClientError list \<Rightarrow> conc \<Rightarrow> caller \<Rightarrow> bool" where
  "caller_link want none got errs st CRange \<longleftrightarrow> find want got = None \<and> errs = err_buf st"
| "caller_link want none got errs st CErr \<longleftrightarrow>
    find want got = None \<and> errs = err_buf st \<and> out_closed st \<and> out_buf st = []"
| "caller_link want none got errs st (CCancel r) \<longleftrightarrow> result_link want none got errs st r"
| "caller_link want none got errs st (CWait r) \<longleftrightarrow> result_link want none got errs st r"
| "caller_link want none got errs st (CReturned r) \<longleftrightarrow> result_link want none got errs st r"
| "caller_link want none got errs st CCrashed \<longleftrightarrow> True"

definition received :: "(ClientPacket \<Rightarrow> bool) \<Rightarrow> go_error \<Rightarrow> conc_event list \<Rightarrow> conc \<Rightarrow> bool" where
  "received want none es st \<longleftrightarrow> history sent_by es = history got_by es @ out_buf st \<and>
     caller_link want none (history got_by es) (history failed_by es) st (clr st)"

lemma caller_link_cong:
  "out_buf st = out_buf st' \<Longrightarrow> err_buf st = err_buf st' \<Longrightarrow> out_closed st = out_closed st' \<Longrightarrow>
    err_closed st = err_closed st' \<Longrightarrow> caller_link want none got errs st k \<longleftrightarrow> caller_link want none got errs st' k"
  by (cases k) (auto simp: result_link_def split: sum.splits client_error.splits)

lemma caller_link_moves [simp]:
  "caller_link want none got errs (st\<lparr>wk := w\<rparr>) k \<longleftrightarrow> caller_link want none got errs st k"
  "caller_link want none got errs (st\<lparr>tctx := t\<rparr>) k \<longleftrightarrow> caller_link want none got errs st k"
  "caller_link want none got errs (st\<lparr>rdl := d\<rparr>) k \<longleftrightarrow> caller_link want none got errs st k"
  "caller_link want none got errs (st\<lparr>cancelled := b\<rparr>) k \<longleftrightarrow> caller_link want none got errs st k"
  "caller_link want none got errs (st\<lparr>clr := k'\<rparr>) k \<longleftrightarrow> caller_link want none got errs st k"
  by (rule caller_link_cong; simp)+

lemma find_snoc: "find P (xs @ [x]) = (case find P xs of None \<Rightarrow> if P x then Some x else None | Some y \<Rightarrow> Some y)"
  by (induction xs) auto

lemma find_append_Some: "find P xs = Some x \<Longrightarrow> find P (xs @ ys) = Some x"
  by (induction xs) (auto split: if_splits)

lemma received_step:
  assumes "conc_step c p want none st e st'" and "conc_inv c st" and "received want none es st"
  shows "received want none (es @ [e]) st'"
  using assms
proof (induction rule: conc_step.induct)
  case (w_send st i n cp)
  then show ?case
    by (cases "clr st") (auto simp: received_def conc_inv_def channels_ok_def done_working_def result_link_def
        split: sum.splits client_error.splits)
next
  case (w_err st e ce)
  then show ?case
    by (cases "clr st") (auto simp: received_def conc_inv_def channels_ok_def done_working_def result_link_def
        split: sum.splits client_error.splits)
next
  case (w_close_out st)
  then show ?case
    by (cases "clr st") (auto simp: received_def result_link_def split: sum.splits client_error.splits)
next
  case (w_close_err st)
  then show ?case
    by (cases "clr st") (auto simp: received_def result_link_def split: sum.splits client_error.splits)
qed (auto simp: received_def result_link_def find_snoc split: option.splits sum.splits client_error.splits)

section \<open>The goroutine and the function\<close>

text \<open>The loop of \<open>sendAndRead\<close>, and what it has done when it meets the last answer it was given.\<close>

definition exchange_of :: "'c Client \<Rightarrow> Packet \<Rightarrow> attempt_env list \<Rightarrow> nat \<times> ClientPacket ended" where
  "exchange_of c p env = (case Packet_MarshalBinary p of
     Returns (Inl e) \<Rightarrow> (0, [], Ended (Some e))
   | _ \<Rightarrow> retryFn (retry c) 0 (attempt c p) env)"

definition waited :: "'c Client \<Rightarrow> Packet \<Rightarrow> attempt_env list \<Rightarrow> bool" where
  "waited c p env \<longleftrightarrow> (\<exists>pkt. Packet_MarshalBinary p = Returns (Inr pkt)) \<and>
     (\<forall>a \<in> set env. attempt c p a = ([], Ended (Some DeadlineExceeded)))"

definition may_try :: "'c Client \<Rightarrow> nat \<Rightarrow> bool" where
  "may_try c i \<longleftrightarrow> int i < retry c \<or> retry c < 0"

text \<open>What the deadline of an attempt means while there are attempts left.\<close>

definition after_attempt :: "'c Client \<Rightarrow> nat \<Rightarrow> ending \<Rightarrow> ending" where
  "after_attempt c i r = (if r = Ended (Some DeadlineExceeded) \<and> may_try c i then AtWork else r)"

lemma exchange_of_last:
  assumes "waited c p env" and "may_try c (length env)"
  shows "exchange_of c p (env @ [a]) = (case attempt c p a of
    (outs, r) \<Rightarrow> (length env + 1, outs, after_attempt c (length env + 1) r))"
proof -
  have "retryFn (retry c) 0 (attempt c p) (env @ [a]) =
      (case retryFn (retry c) (length env) (attempt c p) [a] of (n, outs, r) \<Rightarrow> (length env + n, outs, r))"
    using retryFn_after [of env "attempt c p" 0 "retry c" "[a]"] assms by (auto simp: waited_def may_try_def)
  with assms show ?thesis
    by (auto simp: exchange_of_def waited_def may_try_def after_attempt_def split: prod.splits ending.splits option.splits if_splits)
qed

lemma exchange_of_waited:
  assumes "waited c p env" and "\<not> may_try c (length env)" and "env = [] \<or> may_try c (length env - 1)"
  shows "exchange_of c p env = (length env, [], Ended (Some DeadlineExceeded))"
proof (cases env rule: rev_cases)
  case Nil
  with assms show ?thesis by (auto simp: exchange_of_def waited_def may_try_def)
next
  case (snoc env' a)
  with assms have "waited c p env'" "attempt c p a = ([], Ended (Some DeadlineExceeded))" "may_try c (length env')"
    by (auto simp: waited_def)
  with exchange_of_last [of c p env' a] assms(2) snoc show ?thesis by (simp add: after_attempt_def)
qed

text \<open>In an attempt that goes on: it has read the iterations, and these are its responses.\<close>

definition reading :: "'c Client \<Rightarrow> Packet \<Rightarrow> nat \<Rightarrow> nat \<Rightarrow> attempt_env list \<Rightarrow> ClientPacket list \<Rightarrow> bool" where
  "reading c p i n env outs \<longleftrightarrow> (\<exists>env' its. env = env' @ [\<lparr>write_err = None, iterations = its\<rparr>] \<and>
     waited c p env' \<and> length env' = i \<and> may_try c i \<and> (\<forall>it \<in> set its. undisturbed c p it) \<and>
     outs = map (client_packet c) (concat (map (responses p) its)) \<and> n = length outs)"

lemma reading_stays:
  assumes "reading c p i n env outs" and "undisturbed c p it" and "responses p it = pkts"
  shows "reading c p i (n + length pkts) (add_iteration it env) (outs @ map (client_packet c) pkts)"
  using assms by (fastforce simp: reading_def add_iteration_def)

lemma reading_ends:
  assumes "reading c p i n env outs"
  shows "exchange_of c p (add_iteration it env) = (case read_loop c p n [it] of
    (outs', r) \<Rightarrow> (length env, outs @ outs', after_attempt c (i + 1) r))"
proof -
  obtain env' its where r: "env = env' @ [\<lparr>write_err = None, iterations = its\<rparr>]" "waited c p env'" "length env' = i"
    "may_try c i" "\<And>it. it \<in> set its \<Longrightarrow> undisturbed c p it"
    "outs = map (client_packet c) (concat (map (responses p) its))" "n = length outs"
    using assms by (auto simp: reading_def)
  have "attempt c p \<lparr>write_err = None, iterations = its @ [it]\<rparr> =
      (case read_loop c p n [it] of (outs', res) \<Rightarrow> (outs @ outs', res))"
    using read_loop_undisturbed [of its c p 0 "[it]", OF r(5)] r(6,7) by (simp add: attempt_def)
  with exchange_of_last [OF r(2), of "\<lparr>write_err = None, iterations = its @ [it]\<rparr>"] r(1,3,4) show ?thesis
    by (simp add: add_iteration_def split: prod.splits)
qed

lemma reading_aborted: "abort_iteration (add_iteration it env) = add_iteration (it\<lparr>send_err := Some Canceled\<rparr>) env"
  by (simp add: abort_iteration_def add_iteration_def Let_def)

text \<open>In an attempt with a response in hand.\<close>

definition responding ::
  "'c Client \<Rightarrow> Packet \<Rightarrow> nat \<Rightarrow> nat \<Rightarrow> attempt_env list \<Rightarrow> ClientPacket list \<Rightarrow> ClientPacket \<Rightarrow> bool" where
  "responding c p i n env outs cp \<longleftrightarrow> (\<exists>env' b pkt n'. n = n' + 1 \<and> reading c p i n' env' outs \<and>
     env = add_iteration \<lparr>done_err = None, answer = ReadData b, send_err = None\<rparr> env' \<and>
     ParsePacket (take 1500 b) = Inr pkt \<and> TransactionID pkt = TransactionID p \<and> cp = client_packet c pkt)"

lemma responding_sent: "responding c p i n env outs cp \<Longrightarrow> reading c p i n env (outs @ [cp])"
proof -
  assume "responding c p i n env outs cp"
  then obtain env' b pkt n' where r: "n = n' + 1" "reading c p i n' env' outs"
    "env = add_iteration \<lparr>done_err = None, answer = ReadData b, send_err = None\<rparr> env'"
    "ParsePacket (take 1500 b) = Inr pkt" "TransactionID pkt = TransactionID p" "cp = client_packet c pkt"
    by (auto simp: responding_def)
  with reading_stays [OF r(2), of "\<lparr>done_err = None, answer = ReadData b, send_err = None\<rparr>" "[pkt]"]
  show ?thesis by (simp add: undisturbed_def responses_def alien_def)
qed

lemma responding_aborted:
  "responding c p i n env outs cp \<Longrightarrow>
    exchange_of c p (abort_iteration env) = (length (abort_iteration env), outs, Ended (Some Canceled))"
proof -
  assume "responding c p i n env outs cp"
  then obtain env' b pkt n' where r: "n = n' + 1" "reading c p i n' env' outs"
    "env = add_iteration \<lparr>done_err = None, answer = ReadData b, send_err = None\<rparr> env'"
    "ParsePacket (take 1500 b) = Inr pkt" "TransactionID pkt = TransactionID p"
    by (auto simp: responding_def)
  moreover from r(4) have "Packet_UnmarshalBinary (take 1500 b) zero_Packet = (pkt, None)"
    by (auto simp: ParsePacket_def split: prod.splits option.splits)
  moreover from r(2) have "length (add_iteration it env') = length env'" for it
    by (auto simp: reading_def add_iteration_def)
  ultimately show ?thesis
    using reading_ends [OF r(2), of "\<lparr>done_err = None, answer = ReadData b, send_err = Some Canceled\<rparr>"]
    by (simp add: reading_aborted Let_def after_attempt_def)
qed

definition ended_with :: "'c Client \<Rightarrow> Packet \<Rightarrow> attempt_env list \<Rightarrow> ClientPacket list \<Rightarrow> ending \<Rightarrow> bool" where
  "ended_with c p env outs r \<longleftrightarrow> exchange_of c p env = (length env, outs, r)"

text \<open>What the goroutine has done so far, at every place in its code.\<close>

fun worker_link ::
  "'c Client \<Rightarrow> Packet \<Rightarrow> attempt_env list \<Rightarrow> ClientPacket list \<Rightarrow> ClientError list \<Rightarrow> worker \<Rightarrow> bool" where
  "worker_link c p env outs errs WStart \<longleftrightarrow> env = [] \<and> outs = [] \<and> errs = []"
| "worker_link c p env outs errs (WTry i) \<longleftrightarrow> waited c p env \<and> length env = i \<and> (env = [] \<or> may_try c (i - 1)) \<and>
    outs = [] \<and> errs = []"
| "worker_link c p env outs errs (WTop i n) \<longleftrightarrow> reading c p i n env outs \<and> errs = []"
| "worker_link c p env outs errs (WRead i n) \<longleftrightarrow> reading c p i n env outs \<and> errs = []"
| "worker_link c p env outs errs (WSend i n cp) \<longleftrightarrow> responding c p i n env outs cp \<and> errs = []"
| "worker_link c p env outs errs (WBlock i n cp) \<longleftrightarrow> responding c p i n env outs cp \<and> errs = []"
| "worker_link c p env outs errs (WErr e) \<longleftrightarrow> ended_with c p env outs (Ended (Some e)) \<and> errs = []"
| "worker_link c p env outs errs WPanicked \<longleftrightarrow> ended_with c p env outs Crashed"
| "worker_link c p env outs errs w \<longleftrightarrow>
    (\<exists>res. ended_with c p env outs (Ended res) \<and> errs = (case newClientErr c res of None \<Rightarrow> [] | Some ce \<Rightarrow> [ce]))"

definition worked :: "'c Client \<Rightarrow> Packet \<Rightarrow> conc_event list \<Rightarrow> conc \<Rightarrow> bool" where
  "worked c p es st \<longleftrightarrow> worker_link c p (env_of es) (history sent_by es) (history failed_by es) (wk st) \<and>
     (wk st \<noteq> WStart \<longrightarrow> (\<exists>r. Packet_MarshalBinary p = Returns r))"

lemma worked_read:
  assumes "reading c p i n env outs"
  shows "worker_link c p (record_event env (DidRead r)) outs [] (after_read c p i n r)"
proof -
  let ?it = "\<lparr>done_err = None, answer = r, send_err = None\<rparr>"
  have len: "length (add_iteration it env) = length env" for it
    using assms by (auto simp: reading_def add_iteration_def)
  show ?thesis
  proof (cases rule: after_read_cases [of c p i n r])
    case 1
    then have "undisturbed c p ?it" by (auto simp: undisturbed_def)
    with 1 reading_stays [OF assms, of ?it "[]"] show ?thesis by simp
  next
    case (2 e)
    with len reading_ends [OF assms, of ?it] show ?thesis by (simp add: ended_with_def after_attempt_def)
  next
    case (3 b pkt)
    with len reading_ends [OF assms, of ?it] show ?thesis by (simp add: ended_with_def after_attempt_def)
  next
    case (4 b pkt)
    then show ?thesis using assms by (auto simp: responding_def)
  qed
qed

lemma worked_done:
  assumes "reading c p i n env outs"
  shows "worker_link c p (record_event env (Checked e)) outs []
    (if 0 < n then WCloseOut else if e = DeadlineExceeded then WTry (i + 1) else WErr e)"
proof -
  let ?it = "\<lparr>done_err = Some e, answer = ReadTimedOut, send_err = None\<rparr>"
  obtain env' its where r: "env = env' @ [\<lparr>write_err = None, iterations = its\<rparr>]" "waited c p env'" "length env' = i"
    "may_try c i" "\<And>it. it \<in> set its \<Longrightarrow> undisturbed c p it"
    "outs = map (client_packet c) (concat (map (responses p) its))" "n = length outs"
    using assms by (auto simp: reading_def)
  have len: "length (add_iteration ?it env) = length env" by (simp add: r(1) add_iteration_def)
  have "waited c p (add_iteration ?it env)" if "n = 0" "e = DeadlineExceeded"
  proof -
    have "attempt c p \<lparr>write_err = None, iterations = its @ [?it]\<rparr> = ([], Ended (Some DeadlineExceeded))"
      using read_loop_undisturbed [of its c p 0 "[?it]", OF r(5)] r(6,7) that by (simp add: attempt_def)
    with r(1,2) show ?thesis by (auto simp: waited_def add_iteration_def)
  qed
  with reading_ends [OF assms, of ?it] len r(1,3,4,7) show ?thesis
    by (auto simp: ended_with_def newClientErr_def after_attempt_def)
qed

lemma worked_write:
  assumes "waited c p env" and "may_try c (length env)"
  shows "worker_link c p (record_event env (Wrote e)) [] []
    (case e of Some e \<Rightarrow> WErr (WritingPacket e) | None \<Rightarrow> WTop (length env) 0)"
proof (cases e)
  case None
  with assms show ?thesis by (auto simp: reading_def)
next
  case (Some e')
  with exchange_of_last [OF assms, of "\<lparr>write_err = e, iterations = []\<rparr>"] show ?thesis
    by (simp add: ended_with_def attempt_def after_attempt_def)
qed

lemma worked_marshal:
  "Packet_MarshalBinary p = Returns r \<Longrightarrow>
    worker_link c p [] [] [] (case r of Inl e \<Rightarrow> WErr e | Inr pkt \<Rightarrow> WTry 0)"
  by (cases r) (auto simp: ended_with_def exchange_of_def waited_def)

lemma worked_step:
  assumes "conc_step c p want none st e st'" and "worked c p es st"
  shows "worked c p (es @ [e]) st'"
  using assms
proof (induction rule: conc_step.induct)
  case (w_marshal st r)
  then show ?case using worked_marshal [of p r c] by (simp add: worked_def)
next
  case (w_write st i e)
  then show ?case using worked_write [of c p "env_of es" e]
    by (cases e) (auto simp: worked_def may_try_def)
next
  case (w_limit st i)
  then show ?case using exchange_of_waited [of c p "env_of es"]
    by (auto simp: worked_def may_try_def ended_with_def)
next
  case (w_done st i n e)
  then show ?case using worked_done [of c p i n "env_of es" "history sent_by es" e] by (simp add: worked_def)
next
  case (w_read st i n r)
  then show ?case using worked_read [of c p i n "env_of es" "history sent_by es" r] by (simp add: worked_def)
next
  case (w_send st i n cp)
  then show ?case by (auto simp: worked_def dest: responding_sent)
next
  case (w_abort st i n cp)
  then show ?case
    using responding_aborted [of c p i n "env_of es" "history sent_by es" cp] by (simp add: worked_def ended_with_def)
next
  case (w_err st e ce)
  then show ?case by (auto simp: worked_def intro!: exI [of _ "Some e"])
qed (auto simp: worked_def)

interpretation tracing: history_invariant conc_init "conc_step c p want none"
  "\<lambda>es st. received want none es st \<and> worked c p es st"
proof
  show "received want none [] st \<and> worked c p [] st" if "conc_init st" for st
    using that by (simp add: conc_init_def received_def worked_def)
  show "received want none (es @ [e]) t \<and> worked c p (es @ [e]) t"
    if "reach conc_init (conc_step c p want none) s" "received want none es s \<and> worked c p es s"
      "conc_step c p want none s e t" for s es e t
    using that received_step worked_step exchanging.reach_inv by metis
qed

text \<open>
  The result of a call, however its steps and those of the goroutine interleave, is what the model of \<open>Client\<close>
  computes from the answers that the environment has given.
\<close>

lemma SimpleSendAndRead_ended:
  assumes "ended_with c p env outs (Ended res)" and "Packet_MarshalBinary p = Returns r"
  shows "\<exists>ds. SimpleSendAndRead c dest p env = Returns \<lparr>sent = ds, out = outs,
    errCh = (case newClientErr c res of None \<Rightarrow> [] | Some ce \<Rightarrow> [ce]), closed = True\<rparr>"
proof (cases r)
  case (Inl e)
  with assms show ?thesis
    by (simp add: ended_with_def exchange_of_def SimpleSendAndRead_def SendAndRead_def sendAndRead_def newClientErr_def)
next
  case (Inr pkt)
  with assms have "retryFn (retry c) 0 (attempt c p) env = (length env, outs, Ended res)"
    by (simp add: ended_with_def exchange_of_def)
  with Inr assms(2) show ?thesis
    by (simp add: SimpleSendAndRead_def SendAndRead_def sendAndRead_def)
qed

lemma call_agrees:
  assumes "conc_init st0" and "run (conc_step c p want none) st0 es st" and "clr st = CReturned r"
  obtains x where "SimpleSendAndRead c dest p (env_of es) = Returns x"
    and "(case find want (out x) of Some packet \<Rightarrow> Some (Inr (cp_Packet packet)) | None \<Rightarrow> channel_error none x) = Some r"
proof -
  have l: "received want none es st" "worked c p es st" using tracing.run_linked [OF assms(1,2)] by auto
  have "conc_inv c st"
    using exchanging.run_inv [OF assms(2)] exchanging.init_inv [OF assms(1)] by blast
  with assms(3) have "wk st = WDone" by (simp add: conc_inv_def caller_ok_def)
  with l(2) obtain res m where m: "Packet_MarshalBinary p = Returns m"
    and e: "ended_with c p (env_of es) (history sent_by es) (Ended res)"
    "history failed_by es = (case newClientErr c res of None \<Rightarrow> [] | Some ce \<Rightarrow> [ce])"
    by (auto simp: worked_def)
  from SimpleSendAndRead_ended [OF e(1) m] obtain ds where
    x: "SimpleSendAndRead c dest p (env_of es) = Returns \<lparr>sent = ds, out = history sent_by es,
      errCh = history failed_by es, closed = True\<rparr>"
    unfolding e(2) by blast
  from l(1) assms(3) have rl: "history sent_by es = history got_by es @ out_buf st"
    "result_link want none (history got_by es) (history failed_by es) st r"
    by (auto simp: received_def)
  then have "(case find want (history sent_by es) of Some packet \<Rightarrow> Some (Inr (cp_Packet packet))
    | None \<Rightarrow> channel_error none \<lparr>sent = ds, out = history sent_by es, errCh = history failed_by es, closed = True\<rparr>) = Some r"
    by (auto simp: result_link_def channel_error_def find_append_Some split: sum.splits client_error.splits)
  with x that show ?thesis by simp
qed

text \<open>If the goroutine panics, so does the functional model on the same answers.\<close>

lemma crash_agrees:
  assumes "conc_init st0" and "run (conc_step c p want none) st0 es st" and "clr st = CCrashed"
  shows "SimpleSendAndRead c dest p (env_of es) = Panics"
proof -
  have "conc_inv c st"
    using exchanging.run_inv [OF assms(2)] exchanging.init_inv [OF assms(1)] by blast
  with assms(3) have "wk st = WPanicked" by (simp add: conc_inv_def caller_ok_def)
  moreover have "worked c p es st" using tracing.run_linked [OF assms(1,2)] by auto
  ultimately obtain m where "ended_with c p (env_of es) (history sent_by es) Crashed" "Packet_MarshalBinary p = Returns m"
    by (auto simp: worked_def)
  then show ?thesis
    by (cases m) (auto simp: ended_with_def exchange_of_def SimpleSendAndRead_def SendAndRead_def sendAndRead_def)
qed

section \<open>A concrete run\<close>

text \<open>A call that takes the response as soon as it is there; the goroutine then finds its context cancelled.\<close>

definition example_start :: conc where
  "example_start = \<lparr>wk = WStart, tctx = None, rdl = Unset, cancelled = False, out_buf = [], out_closed = False,
     err_buf = [], err_closed = False, clr = CRange\<rparr>"

definition example_events :: "conc_event list" where
  "example_events = [Marshalled, Wrote None, Armed True, DidRead (ReadData (packet_bytes example_offer)),
     Sent (client_packet example_client example_offer), Got (client_packet example_client example_offer), Cancels]"

definition example_ending :: "conc_event list" where
  "example_ending = [Checked Canceled, ClosedOut, ClosedErr, WgDone, Returned]"

definition example_cancelled :: conc where
  "example_cancelled = \<lparr>wk = WTop 0 1, tctx = Some Canceled, rdl = Pending, cancelled = True, out_buf = [], out_closed = False,
     err_buf = [], err_closed = False, clr = CWait (Inr example_offer)\<rparr>"

definition example_returned :: conc where
  "example_returned = \<lparr>wk = WDone, tctx = Some Canceled, rdl = Pending, cancelled = True, out_buf = [], out_closed = True,
     err_buf = [], err_closed = True, clr = CReturned (Inr example_offer)\<rparr>"

lemma example_run_cancels:
  assumes "Packet_MarshalBinary p = Returns (Inr bs)" and "TransactionID p = TransactionID example_offer"
    and "want (client_packet example_client example_offer)"
  shows "run (conc_step example_client p want none) example_start example_events example_cancelled"
proof -
  have u: "Packet_UnmarshalBinary (take 1500 (packet_bytes example_offer)) zero_Packet = (example_offer, None)"
    using example_offer_ok(3) by (auto simp: ParsePacket_def split: prod.splits option.splits)
  have ar: "after_read example_client p 0 0 (ReadData (packet_bytes example_offer)) =
      WSend 0 1 (client_packet example_client example_offer)"
    by (simp add: after_read_def u assms(2) client_packet_def)
  have cp: "cp_Packet (client_packet example_client example_offer) = example_offer" by (simp add: client_packet_def)
  note go = run_Cons [of "conc_step example_client p want none"]
  show ?thesis
    unfolding example_events_def
    apply (rule go, rule w_marshal, simp add: example_start_def, rule assms(1))
    apply (rule go, rule w_write [of _ 0], simp, simp add: example_client_def)
    apply (rule go, rule w_go_on [of _ 0 0], simp, simp add: example_start_def)
    apply (rule go, rule w_read [of _ 0 0], simp, simp)
    apply (rule go, rule w_send [of _ 0 1],
        simp add: ar, simp add: example_start_def out_capacity_def)
    apply (rule go, rule c_got [of _ _ "[]"], simp add: example_start_def ar, simp add: example_start_def)
    apply (rule go, rule c_cancel [of _ "Inr example_offer"], simp add: assms(3) cp)
    apply (simp add: example_start_def example_cancelled_def assms(3) cp ar)
    done
qed

lemma example_run_ends:
  "run (conc_step example_client p want none) example_cancelled example_ending example_returned"
proof -
  note go = run_Cons [of "conc_step example_client p want none"]
  show ?thesis
    unfolding example_ending_def
    apply (rule go, rule w_done [of _ 0 1], simp add: example_cancelled_def, simp add: example_cancelled_def)
    apply (rule go, rule w_close_out, simp)
    apply (rule go, rule w_close_err, simp)
    apply (rule go, rule w_wg_done, simp)
    apply (rule go, rule c_return [of _ "Inr example_offer"], simp add: example_cancelled_def, simp)
    apply (simp add: example_cancelled_def example_returned_def)
    done
qed

lemma example_run:
  assumes "Packet_MarshalBinary p = Returns (Inr bs)" and "TransactionID p = TransactionID example_offer"
    and "want (client_packet example_client example_offer)"
  shows "run (conc_step example_client p want none) example_start (example_events @ example_ending) example_returned"
  unfolding run_concat
  by (rule exI, rule conjI, rule example_run_cancels [of p _ want, OF assms], rule example_run_ends)

lemma example_offer_accepted:
  "is_offer (client_packet example_client example_offer)"
  "\<exists>bs. Packet_MarshalBinary (discover_packet [2, 0, 0, 0, 0, 7]) = Returns (Inr bs)"
  "TransactionID (discover_packet [2, 0, 0, 0, 0, 7]) = TransactionID example_offer"
  "DiscoverPacket example_client = Returns (discover_packet [2, 0, 0, 0, 0, 7])"
  using discover_encodable [of "[2, 0, 0, 0, 0, 7]"] encodable_marshals
  by (auto simp: is_offer_def client_packet_def GetDHCPMessageType_eq example_offer_def discover_packet_def
      DiscoverPacket_eq example_client_def mac_of_def)

lemma DiscoverOffer_interleaved:
  "DiscoverPacket c = Returns p \<Longrightarrow> returns_after c p is_offer DidntGetPacket es r \<Longrightarrow>
    DiscoverOffer c (env_of es) = Returns (Some r)"
  unfolding returns_after_def
  by (elim exE conjE, rule call_agrees [where dest = DefaultServers], assumption+) (simp add: DiscoverOffer_def)

lemma SendAndReadOne_interleaved:
  assumes "returns_after c p (\<lambda>_. True) NoPacketReceived es r"
  shows "SendAndReadOne c p (env_of es) = Returns (Some r)"
proof -
  obtain st0 st where "conc_init st0" "run (conc_step c p (\<lambda>_. True) NoPacketReceived) st0 es st" "clr st = CReturned r"
    using assms by (auto simp: returns_after_def)
  then obtain x where x: "SimpleSendAndRead c DefaultServers p (env_of es) = Returns x"
    "(case find (\<lambda>_. True) (out x) of Some packet \<Rightarrow> Some (Inr (cp_Packet packet))
      | None \<Rightarrow> channel_error NoPacketReceived x) = Some r"
    by (rule call_agrees)
  then show ?thesis by (cases "out x") (simp_all add: SendAndReadOne_def)
qed

lemma example_returns:
  assumes "Packet_MarshalBinary p = Returns (Inr bs)" and "TransactionID p = TransactionID example_offer"
    and "want (client_packet example_client example_offer)"
  shows "returns_after example_client p want none (example_events @ example_ending) (Inr example_offer)"
  unfolding returns_after_def
  by (rule exI [of _ example_start], rule exI [of _ example_returned])
    (simp add: example_run [of p bs want, OF assms], simp add: conc_init_def example_start_def example_returned_def)

section \<open>Properties\<close>

text \<open>
  C5. Concurrency does not change results: however the steps of \<open>Request\<close> and of its reading goroutines
  interleave, through the buffered channels, the timeouts and the cancellations, the call returns what the
  functional model computes from the answers the environment has given to the two exchanges.
\<close>

theorem Request_interleaved:
  assumes "request_run c es es' r"
  shows "Request c (env_of es) (env_of es') = Returns (Some r)"
  using assms
proof cases
  case (no_offer p e)
  with DiscoverOffer_interleaved [OF no_offer(3,4)] show ?thesis by (simp add: Request_def)
next
  case (offered p offer p')
  with DiscoverOffer_interleaved [OF offered(1,2)] SendAndReadOne_interleaved [OF offered(4)]
  show ?thesis by (simp add: Request_def)
qed

theorem Request_interleaved_witness:
  "Request example_client (env_of (example_events @ example_ending)) (env_of (example_events @ example_ending)) =
    Returns (Some (Inr example_offer))"
proof -
  let ?r = "request_packet [2, 0, 0, 0, 0, 7] example_offer [192, 168, 1, 9]"
  obtain bs where m: "Packet_MarshalBinary (discover_packet [2, 0, 0, 0, 0, 7]) = Returns (Inr bs)"
    using example_offer_accepted(2) by blast
  have "wf_packet example_offer" using example_offer_ok(1) by (simp add: encodable_def)
  then have "encodable ?r"
    by (rule request_received(1) [where ci = "[0, 0, 0, 0]" and si = "[192, 168, 0, 1]", rotated 2])
      (simp_all add: example_offer_def NewPacket_def zero_Packet_def)
  then have r: "Packet_MarshalBinary ?r = Returns (Inr (packet_bytes ?r))" by (rule encodable_marshals)
  have "RequestPacket example_client example_offer = Returns ?r"
    by (subst RequestPacket_eq) (simp_all add: example_offer_def example_client_def mac_of_def)
  moreover have "returns_after example_client ?r (\<lambda>_. True) NoPacketReceived (example_events @ example_ending) (Inr example_offer)"
    by (rule example_returns [OF r]) (simp_all add: request_packet_def NewPacket_def zero_Packet_def)
  ultimately have "request_run example_client (example_events @ example_ending) (example_events @ example_ending) (Inr example_offer)"
    by (rule request_run.offered [OF example_offer_accepted(4)
        example_returns [of _ _ is_offer, OF m example_offer_accepted(3,1)]])
  then show ?thesis by (rule Request_interleaved)
qed

text \<open>
  C25. No deadlock: in every state of a call that has neither returned nor crashed, the caller or the goroutine can take a
  step of its own, unless the goroutine is in \<open>ReadFrom\<close>, waiting for the network; and then nothing needs to arrive: the
  read deadline of 100 ms that was set before the read can pass, and \<open>ReadFrom\<close> times out. Neither the full channels nor the
  wait for the goroutine can block both, and the timeout of the exchange is not needed. This relies on
  \<open>SetReadDeadline\<close>, whose error the code drops: the runs are those in which it has not failed.
\<close>

theorem exchange_never_stuck:
  assumes "conc_init st0" and "run (conc_step c p want none) st0 es st" and "Armed False \<notin> set es"
    and "Packet_MarshalBinary p = Returns res" and "\<not> (\<exists>r. clr st = CReturned r)" and "clr st \<noteq> CCrashed"
  shows "(\<exists>e st'. conc_step c p want none st e st' \<and> own_step e) \<or>
    (\<exists>i n st' st''. wk st = WRead i n \<and> conc_step c p want none st ReadDeadlinePassed st' \<and>
      conc_step c p want none st' (DidRead ReadTimedOut) st'')"
proof (cases "waiting_read st")
  case True
  then obtain i n where w: "wk st = WRead i n" "rdl st \<noteq> Expired" by (auto simp: waiting_read_def)
  with arming.run_linked [OF assms(1,2)] assms(3) have "rdl st = Pending" by (cases "rdl st") auto
  note d = read_deadline [OF w(1) this, of c p want none]
  have "\<exists>st''. conc_step c p want none (st\<lparr>rdl := Expired\<rparr>) (DidRead ReadTimedOut) st''"
    by (rule exI, rule w_read [of _ i n]) (simp_all add: w)
  with d w(1) show ?thesis by blast
next
  case False
  have "conc_inv c st" using exchanging.run_inv [OF assms(2)] exchanging.init_inv [OF assms(1)] by blast
  from no_deadlock [OF this assms(4) _ assms(6) False] assms(5) show ?thesis unfolding can_move_def by blast
qed

theorem exchange_never_stuck_witness:
  "(\<exists>e st'. conc_step example_client example_offer is_offer DidntGetPacket example_cancelled e st' \<and> own_step e) \<or>
    (\<exists>i n st' st''. wk example_cancelled = WRead i n \<and>
      conc_step example_client example_offer is_offer DidntGetPacket example_cancelled ReadDeadlinePassed st' \<and>
      conc_step example_client example_offer is_offer DidntGetPacket st' (DidRead ReadTimedOut) st'')"
  by (rule exchange_never_stuck [OF _ example_run_cancels [OF example_offer_ok(2)] _ example_offer_ok(2)])
    (auto simp: conc_init_def example_start_def example_offer_accepted example_events_def example_cancelled_def)

text \<open>
  C24. No goroutine is leaked: once the caller has cancelled the exchange, at most eleven more steps are possible, and one
  passing of the read deadline, whatever the connection answers; and when none is left, the goroutine has ended
  and the call has returned, or, if the client's interface is nil, the goroutine has panicked. A step is an
  operation that returns: that \<open>ReadFrom\<close> does is what its deadline is for.
\<close>

theorem exchange_ends_after_cancel:
  assumes "reach conc_init (conc_step c p want none) st" and "cancelled st" and "Packet_MarshalBinary p = Returns res"
    and "run (conc_step c p want none) st es st'"
  shows "length (proper_steps es) \<le> 11 \<and> length es \<le> 12 \<and>
    ((\<nexists>e t. conc_step c p want none st' e t) \<longrightarrow>
      wk st' = WDone \<and> (\<exists>r. clr st' = CReturned r) \<or> iface c = None \<and> clr st' = CCrashed)"
proof -
  have inv: "conc_inv c st" "conc_inv c st'"
    using exchanging.reach_inv [OF assms(1)] exchanging.run_inv [OF assms(4)] by auto
  have "length (proper_steps es) \<le> 11" "length es \<le> 12"
    using cancelled_run_short [OF assms(4) inv(1) assms(2)] conc_rank_le [of st] by (simp_all add: timer_rank_def split: if_splits)
  moreover have "wk st' = WDone \<and> (\<exists>r. clr st' = CReturned r) \<or> iface c = None \<and> clr st' = CCrashed"
    if stuck: "\<nexists>e t. conc_step c p want none st' e t"
  proof (cases "(\<exists>r. clr st' = CReturned r) \<or> clr st' = CCrashed")
    case True
    with inv(2) show ?thesis by (auto simp: conc_inv_def caller_ok_def crash_ok_def)
  next
    case False
    have "\<not> waiting_read st'"
    proof
      assume "waiting_read st'"
      then obtain i n where "wk st' = WRead i n" by (auto simp: waiting_read_def)
      from w_read [OF this, of "ReadData []" c p want none] stuck show False by blast
    qed
    with no_deadlock [OF inv(2) assms(3)] False stuck show ?thesis unfolding can_move_def by blast
  qed
  ultimately show ?thesis by blast
qed

theorem exchange_ends_after_cancel_witness:
  "cancelled example_cancelled \<and> length (proper_steps example_ending) \<le> 11 \<and> length example_ending \<le> 12 \<and>
    run (conc_step example_client example_offer is_offer DidntGetPacket) example_cancelled example_ending example_returned"
proof -
  note cancels = example_run_cancels [OF example_offer_ok(2), of is_offer DidntGetPacket]
  have "reach conc_init (conc_step example_client example_offer is_offer DidntGetPacket) example_cancelled"
    by (rule run_reach [OF cancels reach_init]) (simp_all add: example_offer_accepted conc_init_def example_start_def)
  from exchange_ends_after_cancel [OF this _ example_offer_ok(2) example_run_ends] example_run_ends show ?thesis
    by (simp add: example_cancelled_def)
qed

end
