(* ===== verification/Spec2Isabelle.thy ===== *)
theory Spec2Isabelle
  imports ServerRefine Command Marshal Network Typing ClientConc
begin

text \<open>
  This development verifies the Go package \<^verbatim>\<open>dhcp4\<close>: the encoding of DHCPv4 packets and options,
  a DHCP server with its address allocator and the command that runs it, and a DHCP client with the
  raw UDP connection it uses.

  \<^bold>\<open>The parts of the program and the theories that model them.\<close>

  \<^item> \<open>Prelude\<close>: Go's integers as words, errors, the outcome of a call (it returns, panics, or never
    comes back), the built-in operations on slices, byte orders. \<open>Slice\<close>: slices with capacity, for
    the code that reslices received buffers. \<open>NetIP\<close>: what the sources use of the standard package
    \<^verbatim>\<open>net\<close>.
  \<^item> \<open>Uio\<close> (\<^verbatim>\<open>vendor/.../uio/buffer.go\<close>): the buffer and lexer under all codecs. The locale
    \<open>fixed_reader\<close> is the contract of a read of fixed width; every read operation interprets it.
    \<open>Marshal\<close>: the rest of that file, with the locale \<open>marshaler\<close> for the interfaces \<^verbatim>\<open>Marshaler\<close> and
    \<^verbatim>\<open>Unmarshaler\<close>, interpreted on the options.
  \<^item> \<open>Const\<close> (\<^verbatim>\<open>const.go\<close>), \<open>Options\<close> (\<^verbatim>\<open>options.go\<close>), \<open>Packet\<close> (\<^verbatim>\<open>packet.go\<close>): the wire format. The
    options on the wire are specified by \<open>wire_item\<close>, \<open>wire\<close> and \<open>options_of_items\<close>, the fixed part of a packet by
    \<open>packet_header\<close> and \<open>decode_header\<close>; the code is shown to write and accept exactly these.
  \<^item> \<open>OptTypes\<close> (\<^verbatim>\<open>dhcp4opts/types.go\<close>), \<open>OptGet\<close> (\<^verbatim>\<open>dhcp4opts/options.go\<close>): typed options. The locale
    \<open>option_codec\<close> is the contract between a type's two codec methods, interpreted for each type.
  \<^item> \<open>LeasePool\<close>, \<open>IPAlloc\<close> (\<^verbatim>\<open>dhcp4server/ipalloc.go\<close>): the allocator. The locale \<open>lease_pool\<close> states what
    the server relies on and keeps a lease table exact for any such pool; \<open>IPAlloc\<close> interprets it.
  \<^item> \<open>Server\<close>, \<open>ServerSpec\<close> (\<^verbatim>\<open>dhcp4server/server.go\<close>): the record \<open>Server\<close> is the struct of the same
    name, \<open>Serve\<close> is its message loop as a function of the results of \<^verbatim>\<open>ReadFrom\<close> and \<^verbatim>\<open>WriteTo\<close>, one
    definition per case of the switch. \<open>server_inv\<close> is its invariant, \<open>config_ok\<close> what it needs of
    its configuration; \<open>ServerSpec\<close> holds what clients can observe.
  \<^item> \<open>EventSystem\<close>, \<open>LeaseSpec\<close>, \<open>ServerRefine\<close>: the theory of step relations with the locales
    \<open>invariant_system\<close>, \<open>history_invariant\<close> and \<open>simulation\<close>; an abstract table of leases as the
    specification of the server; the loop of \<open>Serve\<close> as a step relation, and the interpretation of
    \<open>simulation\<close> that proves it an implementation of the table.
  \<^item> \<open>NetParse\<close>, \<open>Command\<close> (\<^verbatim>\<open>cmd/dhcp4server/main.go\<close>): the notations of addresses and networks that the
    flags are read with, and \<open>main\<close> as a function of the flags and of what then happens.
  \<^item> \<open>IPv4Hdr\<close> (\<^verbatim>\<open>dhcp4client/ipv4.go\<close>), \<open>Conn\<close> (\<^verbatim>\<open>dhcp4client/conn_linux.go\<close>): IPv4 and UDP headers,
    checksums, and the UDP connection on a raw socket. \<open>ConnOpen\<close> (the same file): the constructors, as
    sequences of system calls.
  \<^item> \<open>Client\<close> (\<^verbatim>\<open>dhcp4client/client.go\<close>): the requests, the read loop, the retries, and the callers, as
    functions of what the environment answers. \<open>ClientConc\<close> (the same file): caller and goroutine as one
    step relation (\<open>conc_step\<close>) over buffered channels, contexts, the read deadline of the connection and the wait
    group. The interface of a client may be nil; the panics that follow are outcomes of the model.
  \<^item> \<open>Network\<close>: client and server on one network, the client behind its raw connection, the server
    on a host that frames datagrams and filters arriving frames as the locale \<open>udp_host\<close> says. \<open>Typing\<close>: the discipline of packets across both.
  \<^item> This theory: the handshake of client and server, frame by frame.

  \<^bold>\<open>What the theorems show.\<close> Packets and options survive encoding and decoding, up to the forms the
  wire cannot carry, and the decoders accept exactly the wire format. How every encoder ends is
  known exactly, with the inputs on which it panics or runs forever. The server never leases an
  address twice, never loses one, stays in its subnet, answers Discover, Request and Release as
  it should, and no input brings it down; every run of it is a run of the abstract lease table, it
  acknowledges only what it has offered, and it has at most as many leases as addresses. The command
  serves its default network safely, and the flag values on which it would crash are known. The allocator finds the lowest free address. The
  checksum is that of RFC 1071, packets built by \<open>udp4pkt\<close> verify at the receiver, and what one raw
  connection writes another one reads. A constructor that fails leaves no socket open. The client
  delivers exactly the responses to its transaction and gives up after the configured number of
  attempts; its goroutine never deadlocks with the caller as long as the read deadlines are set, ends within twelve steps of the
  cancellation (eleven of its own and the caller's, and the expiry of the read deadline), and however the two interleave the result is that of the functional model. Decoded
  packets are well typed, and so are the messages built from them. A client and a server of this
  repository complete the handshake on the network.

  \<^bold>\<open>Conventions and bounds.\<close> Where a slice may be nil and the code tells the difference, it is an
  option; elsewhere nil and empty are identified, as are a nil and an empty map that is only read.
  Where the code slices an address to four bytes, which its capacity bounds, the bytes beyond the length are an
  argument: \<open>Packet_MarshalBinary_cap\<close> and \<open>slice4\<close>. \<open>Packet_MarshalBinary\<close> is the instance without spare capacity that
  client and server use; all their addresses are nil or have four or more bytes, where the spare bytes do not matter
  (\<open>Packet_MarshalBinary_cap_eq\<close>). \<open>Slice\<close> has capacities throughout. Lengths and positions
  are natural numbers, as they never exceed the address space; ports too. Loops that may not
  end (\<open>marshal_loop\<close>, \<open>alloc_loop\<close>) are partial functions in the option domain, and their
  termination is characterised; all other functions are total. No fuel is used: the loops of
  \<open>Serve\<close>, \<open>ReadFrom\<close>, \<open>read_loop\<close> and \<open>retryFn\<close> recurse over the inputs that arrive, and say whether they
  are still waiting when these run out. The order in which Go evaluates the operands of two return
  statements in \<^verbatim>\<open>dhcp4opts/options.go\<close>, which the language leaves open, is a parameter
  (\<open>eval_order\<close>). The answers of the operating system to the calls of \<open>ConnOpen\<close>, the framing and the
  filtering of the host the server runs on, and the order in which a map is iterated are parameters too. In \<open>ClientConc\<close> a
  step is one operation on a channel, a context or the connection, so every order of these
  operations is a run; a deadline may pass at any time, and a read times out only after its deadline has passed. The
  theorems about the server assume \<open>config_ok\<close>: its names fit their fields, and it has an IPv4 address.

  \<^bold>\<open>What is not modelled.\<close> Log output and the text of error messages, apart from \<open>ClientError.Error\<close>; time,
  apart from which deadlines expire when; the capacity of a \<^verbatim>\<open>uio\<close> buffer (\<^verbatim>\<open>Buffer.Cap\<close>, which nothing
  calls), and reflection over structs in \<^verbatim>\<open>encoding/binary\<close>, where values of fixed size are modelled by
  their bytes; two exchanges on one connection at the same time, which the documentation of
  \<open>SimpleSendAndRead\<close> warns against; the other vendored libraries (raw sockets, netlink, Ethernet
  framing), of which only constants and documented answers are used.

  \<^bold>\<open>Plan.\<close> Next: a client behind lossy and reordering networks against the running server, and several
  clients at once; progress of the exchange under a fair clock before its cancellation.
\<close>

section \<open>Client and server together\<close>

text \<open>
  C3. The whole handshake on the wire. A client on an interface with a hardware address of 4 to 16 bytes, on its default
  raw connection and with at least one attempt (\<open>retry\<close> not 0), and a server that satisfies its invariant and its
  configuration conditions, serves a CIDR subnet (its base address masked) and has a lease or a free address for the client,
  complete the exchange. Every request is framed with IP and UDP headers; the host of the server hands a frame to the
  server only if it is addressed to the host or to all hosts and to the port 67 that the command listens on, and
  is relied on to deliver such a frame only if its lengths and both checksums are right; the server decodes and answers it, the reply is
  framed by the host of the server and picked by the client out of any traffic that it can read and that holds no
  response to its transaction. The client ends up with an ACK for exactly the address that the server has leased to it.
\<close>

theorem network_handshake:
  assumes "udp_host recv frame own listen_port" and "server_inv s" and "config_ok s" and "cidr_net k (subnet (ips s))"
    and "conn c = Some upc" and "boundAddr upc = Some (None, ClientPort)" and "retry c \<noteq> 0"
    and "iface c = Some link" and "4 \<le> length (HardwareAddr link)" and "length (HardwareAddr link) \<le> 16"
    and "conns s (getMac (HardwareAddr link)) \<noteq> None \<or> (\<exists>b. free_addr s b)"
    and "\<forall>raw \<in> set noise1 \<union> set noise2. quiet upc (take 4 (rev (HardwareAddr link))) raw"
  shows "\<exists>ack s'. network_request recv frame c s noise1 noise2 = Returns (Some (Inr ack), s') \<and>
    GetDHCPMessageType (Opts ack) = DHCPACK \<and>
    conns s' (getMac (HardwareAddr link)) = Some (YIAddr ack)"
proof -
  let ?mac = "HardwareAddr link" and ?src = "UDPAddr (Some [0, 0, 0, 0]) ClientPort"
  let ?d = "discover_packet ?mac"
  have mac: "mac_of c = ?mac" and up: "iface c \<noteq> None" using assms(8) by (simp_all add: mac_of_def)
  have d: "DiscoverPacket c = Returns ?d" using assms(9) mac by (simp add: DiscoverPacket_eq)
  have md: "Packet_MarshalBinary ?d = Returns (Inr (packet_bytes ?d))"
    by (rule encodable_marshals [OF discover_encodable [OF assms(9,10)]])
  have tx: "TransactionID ?d = take 4 (rev ?mac)" by (simp add: discover_packet_def)
  obtain s1 obs where one: "serve_one s (Received (packet_bytes ?d) ?src None) =
      Returns (s1, Some (obs, reply_addr ?src), None)" "length obs = 254"
    using discover_answered [OF assms(2-4,9-11)] by blast
  obtain f1 g1 env1 where leg1: "frame_for upc (packet_bytes ?d) = Returns f1" "server_host recv frame s f1 = Returns (s1, [RawPacket g1])"
    "attempt_on upc (map RawPacket noise1 @ [RawPacket g1]) = Returns env1" and a1: "answered c ?d obs env1"
    by (rule network_leg [OF assms(1,6) discover_received(2) [OF assms(9,10)] one up, of noise1]) (use assms(12) tx in auto)
  obtain offer req bs where h: "DiscoverOffer c [env1] = Returns (Some (Inr offer))" "RequestPacket c offer = Returns req"
    "encodable req" "length (packet_bytes req) \<le> 1500" "TransactionID req = TransactionID ?d" "length bs = 254"
    "serve_one s1 (Received (packet_bytes req) ?src None) = Returns (s1, Some (bs, reply_addr ?src), None)"
    and acked: "\<And>env2. answered c req bs env2 \<Longrightarrow> \<exists>ack. Request c [env1] [env2] = Returns (Some (Inr ack)) \<and>
      GetDHCPMessageType (Opts ack) = DHCPACK \<and> conns s1 (getMac ?mac) = Some (YIAddr ack)"
    using handshake_steps [OF assms(2,3) _ _ assms(7), unfolded mac, OF assms(9,10) one(1) a1] by blast
  obtain f2 g2 env2 where leg2: "frame_for upc (packet_bytes req) = Returns f2" "server_host recv frame s1 f2 = Returns (s1, [RawPacket g2])"
    "attempt_on upc (map RawPacket noise2 @ [RawPacket g2]) = Returns env2" and a2: "answered c req bs env2"
    by (rule network_leg [OF assms(1,6) h(4,7,6) up, of noise2]) (use assms(12) tx h(5) in auto)
  from acked [OF a2] show ?thesis
    by (auto simp: network_request_def assms(5) d md leg1 h(1,2) encodable_marshals [OF h(3)] leg2)
qed

theorem network_handshake_witness:
  "\<exists>ack s'. network_request (udp4_recv [192, 168, 0, 1] 67) (udp4_host (Some [192, 168, 0, 1]) 67)
      \<lparr>iface = Some \<lparr>link_name = [101], HardwareAddr = [2, 0, 0, 0, 0, 7]\<rparr>,
        conn = Some (NewBroadcastUDPConn () (Some (None, 68))), timeout = 1, retry = 3\<rparr>
      example_server [[69] @ zeros 8 @ [1] @ zeros 10] [] = Returns (Some (Inr ack), s') \<and>
    GetDHCPMessageType (Opts ack) = DHCPACK"
proof -
  let ?upc = "NewBroadcastUDPConn () (Some (None, 68))" and ?raw = "[69] @ zeros 8 @ [1] @ zeros 10"
  let ?link = "\<lparr>link_name = [101], HardwareAddr = [2, 0, 0, 0, 0, 7]\<rparr>"
  let ?c = "\<lparr>iface = Some ?link, conn = Some ?upc, timeout = 1, retry = 3\<rparr>"
  have "fitting (zeros 1500) ?raw = ?raw" by (simp add: fitting_def)
  then have quiet: "quiet ?upc txid ?raw" for txid
    by (simp add: quiet_def readable_def announced_def zeros_numeral zeros_Suc)
  have "Contains example_net (Some [192, 168, 1, 0])"
    by (simp add: Contains_ipv4 example_ok(1)) (simp add: example_net_def masked_def)
  then have free: "free_addr example_server [192, 168, 1, 0]"
    by (simp add: free_addr_def example_subnet) (simp add: example_server_def New_def)
  have "boundAddr ?upc = Some (None, ClientPort)" by (simp add: NewBroadcastUDPConn_def ClientPort_def)
  moreover have "udp_host (udp4_recv [192, 168, 0, 1] 67) (udp4_host (Some [192, 168, 0, 1]) 67) [192, 168, 0, 1] listen_port"
    using own_framing.udp_host_axioms [of "[192, 168, 0, 1]" 67 "Some [192, 168, 0, 1]" 67] by (simp add: listen_port_def)
  moreover have "conns example_server (getMac (HardwareAddr ?link)) \<noteq> None \<or> (\<exists>b. free_addr example_server b)"
    using free by blast
  ultimately show ?thesis
    using network_handshake [OF _ example_ok(2,3) example_cidr, of "udp4_recv [192, 168, 0, 1] 67"
        "udp4_host (Some [192, 168, 0, 1]) 67" "[192, 168, 0, 1]" ?c ?upc ?link "[?raw]" "[]"] quiet by auto
qed

end
